theory Spec2Isabelle
  imports Main "HOL-Library.Product_Lexorder" "HOL-Library.Multiset"
begin

section \<open>Data model\<close>

text \<open>
  Documents of the collections, as the Mongoose schemas of \<^verbatim>\<open>src/models\<close> declare them.
  An ObjectId is a natural number, a \<^verbatim>\<open>Date\<close> is its millisecond timestamp, an absent
  or \<^verbatim>\<open>null\<close> date is \<open>None\<close>.  Fields of different schemas that share a name
  carry a prefix.
\<close>

type_synonym oid = nat
type_synonym date = int

record subtask_instance =
  si_subtaskId :: oid
  si_completed :: bool

record task_instance =
  ti_id :: oid
  ti_taskId :: oid
  ti_userId :: oid
  ti_date :: date
  ti_completed :: bool
  subtaskInstances :: "subtask_instance list"

record subtask =
  sub_id :: oid
  sub_title :: string
  sub_completed :: bool
  sub_notes :: string
  sub_taskId :: oid

record task =
  task_id :: oid
  task_title :: string
  task_completed :: bool
  task_order :: int
  startDate :: "date option"
  endDate :: "date option"
  task_userId :: oid
  createdBy :: "oid option"
  subtasks :: "oid list"
  createdAt :: date

text \<open>
  Modelled from the spec: the schemas of \<^verbatim>\<open>models/User.js\<close> and
  \<^verbatim>\<open>models/Whitelist.js\<close>, which the routes use.  A user has a name, a unique
  email, a hashed password and an admin flag.  A whitelist entry has an email, the admin who
  made it, a used flag (false at first) and the user who consumed it.
\<close>

record user =
  user_id :: oid
  user_name :: string
  user_email :: string
  user_password :: string
  isAdmin :: bool

record whitelist_entry =
  wl_id :: oid
  wl_email :: string
  addedBy :: oid
  isUsed :: bool
  usedBy :: "oid option"

text \<open>
  The ResetCode schema (the last part of \<^verbatim>\<open>src/index.js\<close>): the code, with a unique
  index; the email, which the schema trims and puts in lower case; the admin who made the
  code; the used flag, false by default; the time of use, \<^verbatim>\<open>null\<close> by default; and the
  expiry time, by default 24 hours after the creation.  The timestamps are left out.
\<close>

record reset_code =
  rc_id :: oid
  rc_code :: string
  rc_email :: string
  generatedBy :: oid
  rc_isUsed :: bool
  usedAt :: "date option"
  expiresAt :: date

text \<open>
  The database: one list of documents per collection, in insertion order, and the
  next ObjectId the driver hands out.
\<close>

record store =
  users :: "user list"
  whitelist :: "whitelist_entry list"
  resetCodes :: "reset_code list"
  tasks :: "task list"
  subtaskDocs :: "subtask list"
  taskInstances :: "task_instance list"
  nextId :: oid

text \<open>An error response: the HTTP status and the \<^verbatim>\<open>message\<close> of the JSON body.\<close>

datatype http_error = HttpError nat string

text \<open>\<^verbatim>\<open>Array.prototype.findIndex\<close>; \<open>None\<close> stands for \<^verbatim>\<open>-1\<close>.\<close>

fun findIndex :: "('a \<Rightarrow> bool) \<Rightarrow> 'a list \<Rightarrow> nat option" where
  "findIndex p [] = None"
| "findIndex p (x # xs) =
     (if p x then Some 0 else map_option Suc (findIndex p xs))"

section \<open>Task instances (\<^verbatim>\<open>src/routes/taskInstances.js\<close>)\<close>

text \<open>\<^verbatim>\<open>TaskInstance.findOne({ _id: id, userId })\<close>\<close>

definition findInstance :: "store \<Rightarrow> oid \<Rightarrow> oid \<Rightarrow> task_instance option" where
  "findInstance st iid uid =
     find (\<lambda>i. ti_id i = iid \<and> ti_userId i = uid) (taskInstances st)"

text \<open>\<^verbatim>\<open>instance.save()\<close> of a document that was read from the collection.\<close>

definition saveInstance :: "task_instance \<Rightarrow> store \<Rightarrow> store" where
  "saveInstance inst st =
     st\<lparr>taskInstances :=
          map (\<lambda>j. if ti_id j = ti_id inst then inst else j) (taskInstances st)\<rparr>"

text \<open>\<^verbatim>\<open>PUT /task-instances/:id/complete\<close>\<close>

definition toggleInstanceComplete ::
  "store \<Rightarrow> oid \<Rightarrow> oid \<Rightarrow> (http_error + task_instance) \<times> store" where
  "toggleInstanceComplete st uid iid =
     (case findInstance st iid uid of
        None \<Rightarrow> (Inl (HttpError 404 ''Task instance not found''), st)
      | Some inst \<Rightarrow>
          let c = \<not> ti_completed inst;
              inst' = inst\<lparr>ti_completed := c,
                           subtaskInstances :=
                             map (\<lambda>si. si\<lparr>si_completed := c\<rparr>) (subtaskInstances inst)\<rparr>
          in (Inr inst', saveInstance inst' st))"

text \<open>\<^verbatim>\<open>PUT /task-instances/:id/subtask/:subtaskId\<close>.  \<^verbatim>\<open>find\<close> returns the first
  entry of the embedded array with the given subtask id, and the handler flips it in place.\<close>

definition toggleSubtaskInstance ::
  "store \<Rightarrow> oid \<Rightarrow> oid \<Rightarrow> oid \<Rightarrow> (http_error + task_instance) \<times> store" where
  "toggleSubtaskInstance st uid iid subtaskId =
     (case findInstance st iid uid of
        None \<Rightarrow> (Inl (HttpError 404 ''Task instance not found''), st)
      | Some inst \<Rightarrow>
          (case findIndex (\<lambda>si. si_subtaskId si = subtaskId) (subtaskInstances inst) of
             None \<Rightarrow> (Inl (HttpError 404 ''Subtask instance not found''), st)
           | Some k \<Rightarrow>
               let old = subtaskInstances inst ! k;
                   sis = (subtaskInstances inst)[k := old\<lparr>si_completed := \<not> si_completed old\<rparr>];
                   allSubtasksCompleted = list_all si_completed sis;
                   anySubtaskIncomplete = list_ex (\<lambda>si. \<not> si_completed si) sis;
                   c = (if allSubtasksCompleted \<and> length sis > 0 then True
                        else if anySubtaskIncomplete \<and> ti_completed inst then False
                        else ti_completed inst);
                   inst' = inst\<lparr>ti_completed := c, subtaskInstances := sis\<rparr>
               in (Inr inst', saveInstance inst' st)))"

section \<open>Task ordering (\<^verbatim>\<open>src/models/Task.js\<close>, \<^verbatim>\<open>src/routes/tasks.js\<close>)\<close>

text \<open>
  \<^verbatim>\<open>Array.prototype.sort(cmp)\<close> and the \<^verbatim>\<open>.sort({...})\<close> of a query.  The sort is
  stable: of two elements the comparator does not separate, the one that came first stays
  first.  It is written as an insertion sort, from the right.
\<close>

fun insertBy :: "('a \<Rightarrow> 'a \<Rightarrow> int) \<Rightarrow> 'a \<Rightarrow> 'a list \<Rightarrow> 'a list" where
  "insertBy cmp x [] = [x]"
| "insertBy cmp x (y # ys) =
     (if cmp x y \<le> 0 then x # y # ys else y # insertBy cmp x ys)"

definition sortBy :: "('a \<Rightarrow> 'a \<Rightarrow> int) \<Rightarrow> 'a list \<Rightarrow> 'a list" where
  "sortBy cmp xs = foldr (insertBy cmp) xs []"

text \<open>\<^verbatim>\<open>setHours(0, 0, 0, 0)\<close> and \<^verbatim>\<open>setHours(23, 59, 59, 999)\<close>, with the server's
  clock on UTC.\<close>

definition msPerDay :: int where
  "msPerDay = 86400000"

definition startOfDay :: "date \<Rightarrow> date" where
  "startOfDay d = d - d mod msPerDay"

definition endOfDay :: "date \<Rightarrow> date" where
  "endOfDay d = startOfDay d + (msPerDay - 1)"

text \<open>\<^verbatim>\<open>.sort({ order: 1, createdAt: -1 })\<close>\<close>

definition byOrderNewestFirst :: "task \<Rightarrow> task \<Rightarrow> int" where
  "byOrderNewestFirst a b =
     (if task_order a \<noteq> task_order b then task_order a - task_order b
      else createdAt b - createdAt a)"

text \<open>\<^verbatim>\<open>Task.findTasksForDate(userId, date)\<close>: the tasks of the user whose date range
  meets the day of \<open>d\<close>.\<close>

definition findTasksForDate :: "store \<Rightarrow> oid \<Rightarrow> date \<Rightarrow> task list" where
  "findTasksForDate st uid d =
     sortBy byOrderNewestFirst
       (filter (\<lambda>t. task_userId t = uid
                  \<and> (case startDate t of None \<Rightarrow> False | Some s \<Rightarrow> s \<le> endOfDay d)
                  \<and> (case endDate t of None \<Rightarrow> False | Some e \<Rightarrow> startOfDay d \<le> e))
          (tasks st))"

text \<open>The query for the static tasks of a user: a start date or an end date that is
  \<^verbatim>\<open>null\<close> or missing.\<close>

definition findStaticTasks :: "store \<Rightarrow> oid \<Rightarrow> task list" where
  "findStaticTasks st uid =
     filter (\<lambda>t. task_userId t = uid \<and> (startDate t = None \<or> endDate t = None)) (tasks st)"

text \<open>\<^verbatim>\<open>Task.findOne({ _id: id, userId })\<close>\<close>

definition findTask :: "store \<Rightarrow> oid \<Rightarrow> oid \<Rightarrow> task option" where
  "findTask st tid uid = find (\<lambda>t. task_id t = tid \<and> task_userId t = uid) (tasks st)"

text \<open>The validator of \<^verbatim>\<open>endDate\<close> in the Task schema.\<close>

definition endDateValidator :: "date option \<Rightarrow> date option \<Rightarrow> bool" where
  "endDateValidator start v =
     (case (start, v) of (Some s, Some e) \<Rightarrow> e \<ge> s | _ \<Rightarrow> True)"

text \<open>The validation that \<^verbatim>\<open>task.save()\<close> runs first, on the document in memory, also
  when the document was read from the collection: a document whose end date is before its
  start date is refused, and \<^verbatim>\<open>save\<close> throws.  The other validators of the schema (a
  title of 1 to 200 characters, an owner) hold of every document that a handler has
  stored.\<close>

definition taskValid :: "task \<Rightarrow> bool" where
  "taskValid t \<longleftrightarrow> endDateValidator (startDate t) (endDate t)"

text \<open>The write of \<^verbatim>\<open>task.save()\<close>, for a document that was read from the collection and
  has passed the validation.\<close>

definition saveTask :: "task \<Rightarrow> store \<Rightarrow> store" where
  "saveTask t st =
     st\<lparr>tasks := map (\<lambda>u. if task_id u = task_id t then t else u) (tasks st)\<rparr>"

text \<open>The sibling group of a task in \<^verbatim>\<open>PUT /tasks/:id/order\<close>: the tasks of the day of
  its start date when it has both dates, the static tasks otherwise.\<close>

definition siblingGroup :: "store \<Rightarrow> oid \<Rightarrow> task \<Rightarrow> task list" where
  "siblingGroup st uid t =
     (case (startDate t, endDate t) of
        (Some s, Some e) \<Rightarrow> findTasksForDate st uid s
      | _ \<Rightarrow> sortBy byOrderNewestFirst (findStaticTasks st uid))"

text \<open>\<^verbatim>\<open>allTasks.every(t => t.order > 0) && new Set(allTasks.map(t => t.order)).size === allTasks.length\<close>\<close>

definition hasProperOrders :: "task list \<Rightarrow> bool" where
  "hasProperOrders ts \<longleftrightarrow>
     list_all (\<lambda>t. task_order t > 0) ts
     \<and> length (remdups (map task_order ts)) = length ts"

text \<open>The comparator of the repair.  An order is a number, so \<^verbatim>\<open>a.order || 0\<close> is
  \<^verbatim>\<open>a.order\<close>.\<close>

definition byOrderOldestFirst :: "task \<Rightarrow> task \<Rightarrow> int" where
  "byOrderOldestFirst a b =
     (if task_order a \<noteq> task_order b then task_order a - task_order b
      else createdAt a - createdAt b)"

text \<open>\<^verbatim>\<open>for (let i = 0; i < allTasks.length; i++) { allTasks[i].order = i + 1; await allTasks[i].save(); }\<close>,
  in two parts: the documents with their new orders, and the saves, one after the other.
  The first save that throws ends the loop, with the earlier documents written; the flag
  of the result says whether every save went through.\<close>

definition assignSequential :: "task list \<Rightarrow> task list" where
  "assignSequential ts = map (\<lambda>(i, t). t\<lparr>task_order := int i + 1\<rparr>) (enumerate 0 ts)"

fun saveEach :: "task list \<Rightarrow> store \<Rightarrow> bool \<times> store" where
  "saveEach [] st = (True, st)"
| "saveEach (t # ts) st =
     (if taskValid t then saveEach ts (saveTask t st) else (False, st))"

definition repairOrders :: "task list \<Rightarrow> task list" where
  "repairOrders ts = assignSequential (sortBy byOrderOldestFirst ts)"

text \<open>\<^verbatim>\<open>(a, b) => a.order - b.order\<close>\<close>

definition byOrder :: "task \<Rightarrow> task \<Rightarrow> int" where
  "byOrder a b = task_order a - task_order b"

text \<open>The group as the handler holds it when it looks for the task: repaired if its
  orders were not proper, then sorted by order.\<close>

definition freshlySorted :: "task list \<Rightarrow> task list" where
  "freshlySorted allTasks =
     sortBy byOrder (if hasProperOrders allTasks then allTasks else repairOrders allTasks)"

text \<open>The swap of the order values of the entries at two positions, and the two saves
  under \<^verbatim>\<open>Promise.all\<close>: both are started, each writes its document unless its validation
  throws, and when one throws the handler answers with status 500.  The response of a
  success names the moved task: its id, its title and its new order.\<close>

definition swapOrders ::
  "task list \<Rightarrow> nat \<Rightarrow> nat \<Rightarrow> store \<Rightarrow> (http_error + oid \<times> string \<times> int) \<times> store" where
  "swapOrders ts currentIndex targetIndex st =
     (let currentTask = ts ! currentIndex;
          targetTask = ts ! targetIndex;
          tempOrder = task_order currentTask;
          currentTask' = currentTask\<lparr>task_order := task_order targetTask\<rparr>;
          targetTask' = targetTask\<lparr>task_order := tempOrder\<rparr>;
          st1 = (if taskValid currentTask' then saveTask currentTask' st else st);
          st2 = (if taskValid targetTask' then saveTask targetTask' st1 else st1)
      in if taskValid currentTask' \<and> taskValid targetTask'
         then (Inr (task_id currentTask', task_title currentTask', task_order currentTask'), st2)
         else (Inl (HttpError 500 ''Server error while updating task order''), st2))"

text \<open>\<^verbatim>\<open>PUT /tasks/:id/order\<close>, for the authenticated user \<open>uid\<close>.\<close>

definition reorderTask ::
  "store \<Rightarrow> oid \<Rightarrow> oid \<Rightarrow> string \<Rightarrow> (http_error + oid \<times> string \<times> int) \<times> store" where
  "reorderTask st uid tid direction =
     (if direction \<noteq> ''up'' \<and> direction \<noteq> ''down''
      then (Inl (HttpError 400 ''Validation failed''), st)
      else case findTask st tid uid of
        None \<Rightarrow> (Inl (HttpError 404 ''Task not found''), st)
      | Some task \<Rightarrow>
          let allTasks = siblingGroup st uid task in
          if length allTasks \<le> 1
          then (Inl (HttpError 400 ''Cannot reorder with only one task''), st)
          else
            let (saved, st1) = (if hasProperOrders allTasks then (True, st)
                                else saveEach (repairOrders allTasks) st);
                sorted = freshlySorted allTasks
            in if \<not> saved
               then (Inl (HttpError 500 ''Server error while updating task order''), st1)
               else case findIndex (\<lambda>t. task_id t = tid) sorted of
                 None \<Rightarrow> (Inl (HttpError 404 ''Task not found in list''), st1)
               | Some currentIndex \<Rightarrow>
                   if direction = ''up'' \<and> currentIndex > 0
                   then swapOrders sorted currentIndex (currentIndex - 1) st1
                   else if direction = ''down'' \<and> currentIndex < length sorted - 1
                   then swapOrders sorted currentIndex (currentIndex + 1) st1
                   else (Inl (HttpError 400 (''Cannot move task '' @ direction)), st1))"

text \<open>The order value the collection holds for a task id.\<close>

definition orderOf :: "store \<Rightarrow> oid \<Rightarrow> int option" where
  "orderOf st tid = map_option task_order (find (\<lambda>t. task_id t = tid) (tasks st))"

section \<open>Instance materialisation (\<^verbatim>\<open>getOrCreateTaskInstance\<close>, \<^verbatim>\<open>GET /task-instances/date/:date\<close>)\<close>

text \<open>\<^verbatim>\<open>TaskInstance.findOne({ taskId, userId, date })\<close>\<close>

definition findInstanceFor :: "store \<Rightarrow> oid \<Rightarrow> oid \<Rightarrow> date \<Rightarrow> task_instance option" where
  "findInstanceFor st taskId userId d =
     find (\<lambda>i. ti_taskId i = taskId \<and> ti_userId i = userId \<and> ti_date i = d) (taskInstances st)"

text \<open>\<^verbatim>\<open>.populate('subtasks')\<close>: the Subtask documents that the references of the task
  resolve to, in the order of the references; a reference to a document that is gone is
  dropped.\<close>

definition populateSubtasks :: "store \<Rightarrow> task \<Rightarrow> subtask list" where
  "populateSubtasks st t =
     List.map_filter (\<lambda>i. find (\<lambda>s. sub_id s = i) (subtaskDocs st)) (subtasks t)"

text \<open>A fresh, non-completed entry for a subtask.\<close>

definition newSubtaskInstance :: "subtask \<Rightarrow> subtask_instance" where
  "newSubtaskInstance s = \<lparr>si_subtaskId = sub_id s, si_completed = False\<rparr>"

text \<open>The reconciliation of the entries of an existing instance with the current
  subtasks: the missing entries are pushed at the end, then the entries of subtasks that
  are gone are filtered out.  The membership tests use the two id sets that are built
  before the loop.\<close>

definition syncSubtaskInstances :: "subtask list \<Rightarrow> subtask_instance list \<Rightarrow> subtask_instance list" where
  "syncSubtaskInstances subs sis =
     (let currentSubtaskIds = set (map sub_id subs);
          instanceSubtaskIds = set (map si_subtaskId sis);
          pushed = sis @ map newSubtaskInstance
                           (filter (\<lambda>s. sub_id s \<notin> instanceSubtaskIds) subs)
      in filter (\<lambda>si. si_subtaskId si \<in> currentSubtaskIds) pushed)"

text \<open>\<^verbatim>\<open>needsUpdate\<close>: an entry was pushed, or the filter shortened the array.\<close>

definition needsUpdate :: "subtask list \<Rightarrow> subtask_instance list \<Rightarrow> bool" where
  "needsUpdate subs sis \<longleftrightarrow>
     (let instanceSubtaskIds = set (map si_subtaskId sis);
          missing = filter (\<lambda>s. sub_id s \<notin> instanceSubtaskIds) subs
      in missing \<noteq> []
         \<or> length (syncSubtaskInstances subs sis) \<noteq> length (sis @ map newSubtaskInstance missing))"

text \<open>\<^verbatim>\<open>getOrCreateTaskInstance(taskId, userId, date)\<close>.  The thrown
  \<^verbatim>\<open>Error('Task not found')\<close> is the \<open>Inl\<close> result.\<close>

definition getOrCreateTaskInstance ::
  "store \<Rightarrow> oid \<Rightarrow> oid \<Rightarrow> date \<Rightarrow> (string + task_instance) \<times> store" where
  "getOrCreateTaskInstance st taskId userId d =
     (let targetDate = startOfDay d;
          instance = findInstanceFor st taskId userId targetDate
      in case find (\<lambda>t. task_id t = taskId) (tasks st) of
           None \<Rightarrow> (Inl ''Task not found'', st)
         | Some task \<Rightarrow>
             let subs = populateSubtasks st task in
             (case instance of
                None \<Rightarrow>
                  let new = \<lparr>ti_id = nextId st, ti_taskId = taskId, ti_userId = userId,
                             ti_date = targetDate, ti_completed = False,
                             subtaskInstances = map newSubtaskInstance subs\<rparr>
                  in (Inr new, st\<lparr>taskInstances := taskInstances st @ [new],
                                   nextId := Suc (nextId st)\<rparr>)
              | Some inst \<Rightarrow>
                  let inst' = inst\<lparr>subtaskInstances :=
                                     syncSubtaskInstances subs (subtaskInstances inst)\<rparr>
                  in (Inr inst',
                      if needsUpdate subs (subtaskInstances inst)
                      then saveInstance inst' st else st)))"

text \<open>The loop of \<^verbatim>\<open>GET /task-instances/date/:date\<close> over the active tasks, with the
  array \<^verbatim>\<open>taskInstances\<close> of the response as accumulator: an instance that could not
  be made is logged and left out.\<close>

fun instancesLoop ::
  "oid \<Rightarrow> date \<Rightarrow> task list \<Rightarrow> task_instance list \<Rightarrow> store \<Rightarrow> task_instance list \<times> store" where
  "instancesLoop uid d [] acc st = (acc, st)"
| "instancesLoop uid d (t # ts) acc st =
     (case getOrCreateTaskInstance st (task_id t) uid d of
        (Inl instanceError, st') \<Rightarrow> instancesLoop uid d ts acc st'
      | (Inr inst, st') \<Rightarrow> instancesLoop uid d ts (acc @ [inst]) st')"

text \<open>\<^verbatim>\<open>GET /task-instances/date/:date\<close>.  The parameter is \<open>None\<close> when the path
  segment is not of the form \<^verbatim>\<open>YYYY-MM-DD\<close>, and else the local midnight of that day.\<close>

definition getTaskInstancesForDate ::
  "store \<Rightarrow> oid \<Rightarrow> date option \<Rightarrow> (http_error + task_instance list) \<times> store" where
  "getTaskInstancesForDate st uid dateParam =
     (case dateParam of
        None \<Rightarrow> (Inl (HttpError 400 ''Invalid date format. Use YYYY-MM-DD''), st)
      | Some targetDate \<Rightarrow>
          let activeTasks = findTasksForDate st uid targetDate;
              (found, st') = instancesLoop uid targetDate activeTasks [] st
          in (Inr found, st'))"

text \<open>What the database guarantees of the TaskInstance collection: the \<^verbatim>\<open>_id\<close>s are
  pairwise different, and an id that is still to be handed out is not in use.\<close>

definition wfInstances :: "store \<Rightarrow> bool" where
  "wfInstances st \<longleftrightarrow>
     distinct (map ti_id (taskInstances st))
     \<and> list_all (\<lambda>i. ti_id i < nextId st) (taskInstances st)"

text \<open>The reconciliation in the words of the specification: an entry that is not completed
  for every subtask that the old entries do not know, no entry for a subtask that is gone,
  and the old entries of the subtasks that are still there, as they were.\<close>

definition reconciled ::
  "subtask list \<Rightarrow> subtask_instance list \<Rightarrow> subtask_instance list \<Rightarrow> bool" where
  "reconciled subs old new \<longleftrightarrow>
     list_all (\<lambda>s. sub_id s \<in> set (map si_subtaskId old)
                    \<or> \<lparr>si_subtaskId = sub_id s, si_completed = False\<rparr> \<in> set new) subs
     \<and> list_all (\<lambda>si. si_subtaskId si \<in> set (map sub_id subs)) new
     \<and> filter (\<lambda>si. si_subtaskId si \<in> set (map si_subtaskId old)) new
         = filter (\<lambda>si. si_subtaskId si \<in> set (map sub_id subs)) old"

text \<open>The instance of a task, a user and a day that a read has to leave behind, in the
  words of the specification: made anew with a non-completed entry for every current
  subtask when the store had none, and the stored one reconciled otherwise.\<close>

definition materialisedFrom :: "store \<Rightarrow> task \<Rightarrow> oid \<Rightarrow> date \<Rightarrow> task_instance \<Rightarrow> bool" where
  "materialisedFrom st t uid day inst \<longleftrightarrow>
     ti_taskId inst = task_id t \<and> ti_userId inst = uid \<and> ti_date inst = day
     \<and> (case findInstanceFor st (task_id t) uid day of
          None \<Rightarrow>
            \<not> ti_completed inst
            \<and> subtaskInstances inst
                = map (\<lambda>s. \<lparr>si_subtaskId = sub_id s, si_completed = False\<rparr>) (populateSubtasks st t)
        | Some old \<Rightarrow>
            ti_id inst = ti_id old \<and> ti_completed inst = ti_completed old
            \<and> reconciled (populateSubtasks st t) (subtaskInstances old) (subtaskInstances inst))"

section \<open>Deleting a task (\<^verbatim>\<open>DELETE /tasks/:id\<close>)\<close>

text \<open>The deletion of the one document of a collection that a filter selects
  (\<^verbatim>\<open>findByIdAndDelete\<close>).\<close>

fun deleteOne :: "('a \<Rightarrow> bool) \<Rightarrow> 'a list \<Rightarrow> 'a list" where
  "deleteOne p [] = []"
| "deleteOne p (x # xs) = (if p x then xs else x # deleteOne p xs)"

definition deleteTask :: "store \<Rightarrow> oid \<Rightarrow> oid \<Rightarrow> (http_error + string) \<times> store" where
  "deleteTask st uid tid =
     (case findTask st tid uid of
        None \<Rightarrow> (Inl (HttpError 404 ''Task not found''), st)
      | Some task \<Rightarrow>
          let st1 = st\<lparr>subtaskDocs := filter (\<lambda>s. sub_taskId s \<noteq> tid) (subtaskDocs st)\<rparr>;
              st2 = st1\<lparr>tasks := deleteOne (\<lambda>t. task_id t = tid) (tasks st1)\<rparr>
          in (Inr ''Task and its subtasks deleted successfully'', st2))"

section \<open>Creating and updating tasks (\<^verbatim>\<open>POST /tasks\<close>, \<^verbatim>\<open>POST /admin/create-task\<close>, \<^verbatim>\<open>PUT /tasks/:id\<close>)\<close>

text \<open>A date field of a request body, as the chain \<^verbatim>\<open>optional().isISO8601()\<close> sorts it:
  absent, present but not a date, or a date, with the time that \<^verbatim>\<open>new Date(...)\<close> makes
  of it.\<close>

datatype date_field = Absent | Invalid | Valid date

fun dateOf :: "date_field \<Rightarrow> date option" where
  "dateOf (Valid d) = Some d"
| "dateOf _ = None"

text \<open>The body of a create request; the title is the one that \<^verbatim>\<open>trim()\<close> leaves.\<close>

record task_body =
  body_title :: string
  body_startDate :: date_field
  body_endDate :: date_field

definition validTaskBody :: "task_body \<Rightarrow> bool" where
  "validTaskBody b \<longleftrightarrow>
     1 \<le> length (body_title b) \<and> length (body_title b) \<le> 200
     \<and> body_startDate b \<noteq> Invalid \<and> body_endDate b \<noteq> Invalid"

text \<open>\<^verbatim>\<open>x + 1\<close> on doubles, for a double \<open>x\<close> that is an integer.  The sum is exact
  below \<open>2\<^sup>5\<^sup>3\<close>.  From there to \<open>2\<^sup>5\<^sup>4\<close> the doubles are the even integers and
  \<open>x + 1\<close> lies half way between two of them: the one that is a multiple of 4 is taken.
  Beyond, \<open>x + 1\<close> is rounded back to \<open>x\<close>.\<close>

definition addOne :: "int \<Rightarrow> int" where
  "addOne x =
     (if - (2 ^ 53) \<le> x \<and> x < 2 ^ 53 then x + 1
      else if \<bar>x\<bar> < 2 ^ 54 then (if x mod 4 = 0 then x else x + 2)
      else x)"

text \<open>\<^verbatim>\<open>Math.max(...existingTasks.map(t => t.order || 0)) + 1\<close>, or 1 for an empty list.\<close>

definition nextOrder :: "task list \<Rightarrow> int" where
  "nextOrder existingTasks =
     (if length existingTasks > 0 then addOne (Max (set (map task_order existingTasks))) else 1)"

text \<open>The statements that the two create handlers share, after the validation of the
  body: the checks of the date pair, the next order of the group, and the save, which runs
  the schema validator.  A failed save is caught and answered with status 500.\<close>

definition createTaskFor ::
  "store \<Rightarrow> oid \<Rightarrow> oid option \<Rightarrow> task_body \<Rightarrow> date \<Rightarrow> (http_error + task) \<times> store" where
  "createTaskFor st userId creator b now =
     (let startDate = dateOf (body_startDate b);
          endDate = dateOf (body_endDate b)
      in case (startDate, endDate) of
           (Some s, Some e) \<Rightarrow>
             if startOfDay e < startOfDay s
             then (Inl (HttpError 400 ''End date must be after or equal to start date''), st)
             else
               let t = \<lparr>task_id = nextId st, task_title = body_title b, task_completed = False,
                        task_order = nextOrder (findTasksForDate st userId s),
                        startDate = Some s, endDate = Some e, task_userId = userId,
                        createdBy = creator, subtasks = [], createdAt = now\<rparr>
               in if endDateValidator (Some s) (Some e)
                  then (Inr t, st\<lparr>tasks := tasks st @ [t], nextId := Suc (nextId st)\<rparr>)
                  else (Inl (HttpError 500 ''Server error while creating task''), st)
         | (None, None) \<Rightarrow>
             let t = \<lparr>task_id = nextId st, task_title = body_title b, task_completed = False,
                      task_order = nextOrder (findStaticTasks st userId),
                      startDate = None, endDate = None, task_userId = userId,
                      createdBy = creator, subtasks = [], createdAt = now\<rparr>
             in (Inr t, st\<lparr>tasks := tasks st @ [t], nextId := Suc (nextId st)\<rparr>)
         | _ \<Rightarrow>
             (Inl (HttpError 400 ''Both start date and end date must be provided together, or leave both empty for static tasks''), st))"

text \<open>\<^verbatim>\<open>POST /tasks\<close>, for the authenticated user \<open>uid\<close>.\<close>

definition createTask :: "store \<Rightarrow> oid \<Rightarrow> task_body \<Rightarrow> date \<Rightarrow> (http_error + task) \<times> store" where
  "createTask st uid b now =
     (if \<not> validTaskBody b then (Inl (HttpError 400 ''Validation failed''), st)
      else createTaskFor st uid None b now)"

text \<open>\<^verbatim>\<open>POST /admin/create-task\<close>, for the authenticated user \<open>admin\<close> and the target
  user \<open>userId\<close>.\<close>

definition adminCreateTask ::
  "store \<Rightarrow> user \<Rightarrow> oid \<Rightarrow> task_body \<Rightarrow> date \<Rightarrow> (http_error + task) \<times> store" where
  "adminCreateTask st admin userId b now =
     (if \<not> isAdmin admin
      then (Inl (HttpError 403 ''Access denied. Admin privileges required.''), st)
      else if \<not> validTaskBody b then (Inl (HttpError 400 ''Validation failed''), st)
      else case find (\<lambda>u. user_id u = userId) (users st) of
        None \<Rightarrow> (Inl (HttpError 404 ''Target user not found''), st)
      | Some targetUser \<Rightarrow> createTaskFor st userId (Some (user_id admin)) b now)"

text \<open>The body of an update request, with the fields that the handler validates.\<close>

record task_updates =
  upd_title :: "string option"
  upd_completed :: "bool option"
  upd_startDate :: date_field
  upd_endDate :: date_field

definition validTaskUpdates :: "task_updates \<Rightarrow> bool" where
  "validTaskUpdates u \<longleftrightarrow>
     (case upd_title u of None \<Rightarrow> True | Some t \<Rightarrow> 1 \<le> length t \<and> length t \<le> 200)
     \<and> upd_startDate u \<noteq> Invalid \<and> upd_endDate u \<noteq> Invalid"

text \<open>The fields of the Task schema that the handler does not validate and that
  \<^verbatim>\<open>Object.assign\<close> copies from the body all the same, when the body has them.\<close>

record task_extras =
  upd_order :: "int option"
  upd_userId :: "oid option"
  upd_createdBy :: "oid option option"
  upd_subtasks :: "oid list option"

definition noExtras :: task_extras where
  "noExtras = \<lparr>upd_order = None, upd_userId = None, upd_createdBy = None, upd_subtasks = None\<rparr>"

text \<open>\<^verbatim>\<open>PUT /tasks/:id\<close>, for a body with the validated fields \<open>u\<close> and the other fields
  \<open>x\<close>.  When the body has a date, the range check compares the days of the new or, where
  the body has none, the stored dates; it sets the time of a stored date to the start of
  its day on the document in memory, which is not a modification that the save writes.  The
  subtasks are updated before the save.  \<^verbatim>\<open>Object.assign\<close> then copies the fields of the
  body.  The save validates the document in memory, throws when it is refused, and else
  writes the copied fields; the response carries the document in memory.\<close>

definition updateTaskBody ::
  "store \<Rightarrow> oid \<Rightarrow> oid \<Rightarrow> task_updates \<Rightarrow> task_extras \<Rightarrow> (http_error + task) \<times> store" where
  "updateTaskBody st uid tid u x =
     (if \<not> validTaskUpdates u then (Inl (HttpError 400 ''Validation failed''), st)
      else case findTask st tid uid of
        None \<Rightarrow> (Inl (HttpError 404 ''Task not found''), st)
      | Some task \<Rightarrow>
          let newStart = dateOf (upd_startDate u);
              newEnd = dateOf (upd_endDate u);
              rangeChecked = (newStart \<noteq> None \<or> newEnd \<noteq> None);
              startDate' = (case newStart of Some d \<Rightarrow> Some d | None \<Rightarrow> startDate task);
              endDate' = (case newEnd of Some d \<Rightarrow> Some d | None \<Rightarrow> endDate task)
          in if rangeChecked
                \<and> (case (startDate', endDate') of
                       (Some s, Some e) \<Rightarrow> startOfDay e < startOfDay s | _ \<Rightarrow> False)
             then (Inl (HttpError 400 ''End date must be after or equal to start date''), st)
             else
               let st1 = (case upd_completed u of
                            None \<Rightarrow> st
                          | Some c \<Rightarrow>
                              st\<lparr>subtaskDocs :=
                                   map (\<lambda>s. if sub_taskId s = tid then s\<lparr>sub_completed := c\<rparr> else s)
                                     (subtaskDocs st)\<rparr>);
                   assigned = task\<lparr>task_title := (case upd_title u of None \<Rightarrow> task_title task | Some t \<Rightarrow> t),
                                   task_completed := (case upd_completed u of None \<Rightarrow> task_completed task | Some c \<Rightarrow> c),
                                   task_order := (case upd_order x of None \<Rightarrow> task_order task | Some n \<Rightarrow> n),
                                   task_userId := (case upd_userId x of None \<Rightarrow> task_userId task | Some i \<Rightarrow> i),
                                   createdBy := (case upd_createdBy x of None \<Rightarrow> createdBy task | Some c \<Rightarrow> c),
                                   subtasks := (case upd_subtasks x of None \<Rightarrow> subtasks task | Some l \<Rightarrow> l)\<rparr>;
                   stored = assigned\<lparr>startDate := startDate', endDate := endDate'\<rparr>;
                   inMemory = assigned
                     \<lparr>startDate := (case newStart of
                                      Some d \<Rightarrow> Some d
                                    | None \<Rightarrow> if rangeChecked then map_option startOfDay (startDate task)
                                              else startDate task),
                      endDate := (case newEnd of
                                    Some d \<Rightarrow> Some d
                                  | None \<Rightarrow> if rangeChecked then map_option startOfDay (endDate task)
                                            else endDate task)\<rparr>
               in if \<not> taskValid inMemory
                  then (Inl (HttpError 500 ''Server error while updating task''), st1)
                  else (Inr inMemory, saveTask stored st1))"

text \<open>\<^verbatim>\<open>PUT /tasks/:id\<close> for a body that has none of the other fields.\<close>

definition updateTask ::
  "store \<Rightarrow> oid \<Rightarrow> oid \<Rightarrow> task_updates \<Rightarrow> (http_error + task) \<times> store" where
  "updateTask st uid tid u = updateTaskBody st uid tid u noExtras"

section \<open>Registration (\<^verbatim>\<open>POST /auth/register\<close>)\<close>

text \<open>The body of a registration request: the name after \<^verbatim>\<open>trim()\<close>, the email after
  \<^verbatim>\<open>normalizeEmail()\<close>, and the password.\<close>

record register_body =
  reg_name :: string
  reg_email :: string
  reg_password :: string

definition bootstrapEmail :: string where
  "bootstrapEmail = ''admin@afterlife.org.in''"

definition adminEmails :: "string list" where
  "adminEmails = [''admin@afterlife.org.in'', ''xanderash44@gmail.com'',
     ''ashrith@afterlife.org.in'', ''dhanush@afterlife.org.in'', ''austinak@afterlife.org.in'']"

text \<open>The update of the first document of a collection that a filter selects
  (\<^verbatim>\<open>findOneAndUpdate\<close>).\<close>

fun updateOne :: "('a \<Rightarrow> bool) \<Rightarrow> ('a \<Rightarrow> 'a) \<Rightarrow> 'a list \<Rightarrow> 'a list" where
  "updateOne p f [] = []"
| "updateOne p f (x # xs) = (if p x then f x # xs else x # updateOne p f xs)"

text \<open>The validation chain of the registration: a name of 1 to 50 characters, an email
  that \<^verbatim>\<open>isEmail\<close> accepts, a password of at least 6 characters.\<close>

definition validRegistration :: "(string \<Rightarrow> bool) \<Rightarrow> register_body \<Rightarrow> bool" where
  "validRegistration isEmail b \<longleftrightarrow>
     1 \<le> length (reg_name b) \<and> length (reg_name b) \<le> 50
     \<and> isEmail (reg_email b) \<and> 6 \<le> length (reg_password b)"

text \<open>\<^verbatim>\<open>POST /auth/register\<close>.  The validator \<^verbatim>\<open>isEmail\<close> of the validation library and
  the password hash of the User schema are parameters.  The token of the response is made
  from the id of the new user and is left out.\<close>

definition registerUser ::
  "(string \<Rightarrow> bool) \<Rightarrow> (string \<Rightarrow> string) \<Rightarrow> store \<Rightarrow> register_body
     \<Rightarrow> (http_error + user) \<times> store" where
  "registerUser isEmail hashPassword st b =
     (let name = reg_name b; email = reg_email b; password = reg_password b in
      if \<not> validRegistration isEmail b
      then (Inl (HttpError 400 ''Validation failed''), st)
      else if find (\<lambda>u. user_email u = email) (users st) \<noteq> None
      then (Inl (HttpError 400 ''User already exists with this email''), st)
      else
        case (if email \<noteq> bootstrapEmail
              then (case find (\<lambda>w. wl_email w = email) (whitelist st) of
                      None \<Rightarrow> Some (HttpError 403
                        ''Email not authorized. Please contact admin to whitelist your email address.'')
                    | Some whitelistEntry \<Rightarrow>
                        if isUsed whitelistEntry
                        then Some (HttpError 400 ''This email has already been used for registration'')
                        else None)
              else None) of
          Some err \<Rightarrow> (Inl err, st)
        | None \<Rightarrow>
            let u = \<lparr>user_id = nextId st, user_name = name, user_email = email,
                     user_password = hashPassword password,
                     isAdmin = (email \<in> set adminEmails)\<rparr>;
                st1 = st\<lparr>users := users st @ [u], nextId := Suc (nextId st)\<rparr>;
                st2 = (if email \<noteq> bootstrapEmail
                       then st1\<lparr>whitelist :=
                                  updateOne (\<lambda>w. wl_email w = email)
                                    (\<lambda>w. w\<lparr>isUsed := True, usedBy := Some (user_id u)\<rparr>)
                                    (whitelist st1)\<rparr>
                       else st1)
            in (Inr u, st2))"

section \<open>Reset codes (\<^verbatim>\<open>POST /admin/reset-codes\<close>)\<close>

text \<open>\<^verbatim>\<open>Number.prototype.toString\<close> on a natural number.\<close>

definition digitChar :: "nat \<Rightarrow> char" where
  "digitChar d = ''0123456789'' ! d"

fun toString :: "nat \<Rightarrow> string" where
  "toString n =
     (if n < 10 then [digitChar n]
      else toString (n div 10) @ [digitChar (n mod 10)])"

text \<open>\<^verbatim>\<open>Math.floor(100000 + Math.random() * 900000).toString()\<close>, for the integer part
  \<open>r\<close> of \<^verbatim>\<open>Math.random() * 900000\<close>.\<close>

definition generateResetCode :: "nat \<Rightarrow> string" where
  "generateResetCode r = toString (100000 + r)"

text \<open>The loop that draws codes until one is not the code of an unused document.  The
  random draws that the loop consumes are a list; when the list is used up and no code was
  free, the loop has not ended, and the result is \<open>None\<close>.\<close>

fun generateUnique :: "reset_code list \<Rightarrow> nat list \<Rightarrow> string option" where
  "generateUnique codes [] = None"
| "generateUnique codes (r # rs) =
     (let code = generateResetCode r in
      if find (\<lambda>c. rc_code c = code \<and> \<not> rc_isUsed c) codes = None then Some code
      else generateUnique codes rs)"

text \<open>\<^verbatim>\<open>ResetCode.updateMany({ email, isUsed: false }, { isUsed: true, usedAt: new Date() })\<close>\<close>

definition retireCodes :: "string \<Rightarrow> date \<Rightarrow> reset_code list \<Rightarrow> reset_code list" where
  "retireCodes email now codes =
     map (\<lambda>c. if rc_email c = email \<and> \<not> rc_isUsed c
               then c\<lparr>rc_isUsed := True, usedAt := Some now\<rparr> else c) codes"

text \<open>The setters of the email in the ResetCode schema, \<^verbatim>\<open>trim\<close> and \<^verbatim>\<open>lowercase\<close>, on
  the white space and the letters of ASCII.\<close>

definition toLowerCase :: "string \<Rightarrow> string" where
  "toLowerCase s =
     map (\<lambda>c. case map_of (zip ''ABCDEFGHIJKLMNOPQRSTUVWXYZ'' ''abcdefghijklmnopqrstuvwxyz'') c of
                None \<Rightarrow> c | Some l \<Rightarrow> l) s"

definition isSpace :: "char \<Rightarrow> bool" where
  "isSpace c \<longleftrightarrow> c \<in> set [CHR '' '', CHR 0x09, CHR 0x0A, CHR 0x0B, CHR 0x0C, CHR 0x0D]"

definition trim :: "string \<Rightarrow> string" where
  "trim s = rev (dropWhile isSpace (rev (dropWhile isSpace s)))"

definition emailSetter :: "string \<Rightarrow> string" where
  "emailSetter email = toLowerCase (trim email)"

text \<open>\<^verbatim>\<open>POST /admin/reset-codes\<close>, for the authenticated user \<open>admin\<close>, at the time
  \<open>now\<close>; the email is the one that \<^verbatim>\<open>normalizeEmail()\<close> leaves.  The new document
  is stored with the email that the setters of the schema make of it.  The insert is
  refused by the unique index when a document, used or not, has the code already; the
  handler then answers with status 500, after the old codes of the email were retired.\<close>

definition issueResetCode ::
  "(string \<Rightarrow> bool) \<Rightarrow> store \<Rightarrow> user \<Rightarrow> string \<Rightarrow> nat list \<Rightarrow> date
     \<Rightarrow> ((http_error + reset_code) \<times> store) option" where
  "issueResetCode isEmail st admin email draws now =
     (if \<not> isAdmin admin
      then Some (Inl (HttpError 403 ''Access denied. Admin privileges required.''), st)
      else if \<not> isEmail email then Some (Inl (HttpError 400 ''Validation failed''), st)
      else if find (\<lambda>u. user_email u = email) (users st) = None
      then Some (Inl (HttpError 404 ''User not found with this email''), st)
      else if find (\<lambda>w. wl_email w = email) (whitelist st) = None
      then Some (Inl (HttpError 403 ''Email is not whitelisted''), st)
      else
        let st1 = st\<lparr>resetCodes := retireCodes email now (resetCodes st)\<rparr> in
        case generateUnique (resetCodes st1) draws of
          None \<Rightarrow> None
        | Some code \<Rightarrow>
            let resetCode = \<lparr>rc_id = nextId st1, rc_code = code, rc_email = emailSetter email,
                             generatedBy = user_id admin, rc_isUsed = False, usedAt = None,
                             expiresAt = now + 24 * 60 * 60 * 1000\<rparr>
            in if find (\<lambda>c. rc_code c = code) (resetCodes st1) \<noteq> None
               then Some (Inl (HttpError 500 ''Server error while generating reset code''), st1)
               else Some (Inr resetCode,
                          st1\<lparr>resetCodes := resetCodes st1 @ [resetCode],
                               nextId := Suc (nextId st1)\<rparr>))"

text \<open>The unused codes of an email, and those of them that have not expired at a time: the
  documents that the query \<^verbatim>\<open>{ email, isUsed: false, expiresAt: { $gt: now } }\<close> of the
  password reset can find.\<close>

definition unusedCodes :: "string \<Rightarrow> reset_code list \<Rightarrow> reset_code list" where
  "unusedCodes email codes = filter (\<lambda>c. rc_email c = email \<and> \<not> rc_isUsed c) codes"

definition liveCodes :: "string \<Rightarrow> date \<Rightarrow> reset_code list \<Rightarrow> reset_code list" where
  "liveCodes email now codes =
     filter (\<lambda>c. rc_email c = email \<and> \<not> rc_isUsed c \<and> now < expiresAt c) codes"

text \<open>\<^verbatim>\<open>POST /auth/reset-password\<close>, at the time \<open>now\<close>: the other handler that writes a
  reset code.  The code of the body is the one that \<^verbatim>\<open>trim()\<close> leaves.\<close>

record reset_body =
  rp_email :: string
  rp_code :: string
  rp_newPassword :: string

definition resetPassword ::
  "(string \<Rightarrow> bool) \<Rightarrow> (string \<Rightarrow> string) \<Rightarrow> store \<Rightarrow> reset_body \<Rightarrow> date
     \<Rightarrow> (http_error + string) \<times> store" where
  "resetPassword isEmail hashPassword st b now =
     (let email = rp_email b; code = rp_code b; newPassword = rp_newPassword b in
      if \<not> (isEmail email \<and> length code = 6 \<and> 6 \<le> length newPassword)
      then (Inl (HttpError 400 ''Validation failed''), st)
      else case find (\<lambda>u. user_email u = email) (users st) of
        None \<Rightarrow> (Inl (HttpError 404 ''User not found with this email''), st)
      | Some u \<Rightarrow>
          if find (\<lambda>w. wl_email w = email) (whitelist st) = None
          then (Inl (HttpError 403 ''Email is not whitelisted''), st)
          else
            case find (\<lambda>c. rc_code c = code \<and> rc_email c = email \<and> \<not> rc_isUsed c
                            \<and> now < expiresAt c) (resetCodes st) of
              None \<Rightarrow> (Inl (HttpError 400 ''Invalid or expired access code''), st)
            | Some resetCode \<Rightarrow>
                let u' = u\<lparr>user_password := hashPassword newPassword\<rparr>;
                    st1 = st\<lparr>users := map (\<lambda>v. if user_id v = user_id u' then u' else v) (users st)\<rparr>;
                    resetCode' = resetCode\<lparr>rc_isUsed := True, usedAt := Some now\<rparr>;
                    st2 = st1\<lparr>resetCodes :=
                                map (\<lambda>c. if rc_id c = rc_id resetCode' then resetCode' else c)
                                  (resetCodes st1)\<rparr>
                in (Inr ''Password reset successfully. You can now login with your new password.'',
                    st2))"

text \<open>\<^verbatim>\<open>DELETE /admin/reset-codes/:id\<close>\<close>

definition deleteResetCode :: "store \<Rightarrow> user \<Rightarrow> oid \<Rightarrow> (http_error + string) \<times> store" where
  "deleteResetCode st admin rid =
     (if \<not> isAdmin admin
      then (Inl (HttpError 403 ''Access denied. Admin privileges required.''), st)
      else case find (\<lambda>c. rc_id c = rid) (resetCodes st) of
        None \<Rightarrow> (Inl (HttpError 404 ''Reset code not found''), st)
      | Some resetCode \<Rightarrow>
          (Inr ''Reset code deleted successfully'',
           st\<lparr>resetCodes := deleteOne (\<lambda>c. rc_id c = rid) (resetCodes st)\<rparr>))"

section \<open>Example stores\<close>

definition store0 :: store where
  "store0 = \<lparr>users = [], whitelist = [], resetCodes = [], tasks = [], subtaskDocs = [],
     taskInstances =
       [\<lparr>ti_id = 7, ti_taskId = 1, ti_userId = 2, ti_date = 0, ti_completed = True,
         subtaskInstances = [\<lparr>si_subtaskId = 3, si_completed = True\<rparr>,
                             \<lparr>si_subtaskId = 4, si_completed = True\<rparr>]\<rparr>],
     nextId = 8\<rparr>"

definition inst0' :: task_instance where
  "inst0' = \<lparr>ti_id = 7, ti_taskId = 1, ti_userId = 2, ti_date = 0, ti_completed = False,
         subtaskInstances = [\<lparr>si_subtaskId = 3, si_completed = False\<rparr>,
                             \<lparr>si_subtaskId = 4, si_completed = False\<rparr>]\<rparr>"

definition inst1' :: task_instance where
  "inst1' = \<lparr>ti_id = 7, ti_taskId = 1, ti_userId = 2, ti_date = 0, ti_completed = False,
         subtaskInstances = [\<lparr>si_subtaskId = 3, si_completed = True\<rparr>,
                             \<lparr>si_subtaskId = 4, si_completed = False\<rparr>]\<rparr>"

text \<open>Static tasks of user 1, and stores that hold only such tasks.\<close>

definition staticTask :: "oid \<Rightarrow> int \<Rightarrow> date \<Rightarrow> task" where
  "staticTask i ord c =
     \<lparr>task_id = i, task_title = ''t'', task_completed = False, task_order = ord,
      startDate = None, endDate = None, task_userId = 1, createdBy = None,
      subtasks = [], createdAt = c\<rparr>"

definition taskStore :: "task list \<Rightarrow> store" where
  "taskStore ts =
     \<lparr>users = [], whitelist = [], resetCodes = [], tasks = ts, subtaskDocs = [],
      taskInstances = [], nextId = 100\<rparr>"

definition storeOne :: store where
  "storeOne = taskStore [staticTask 10 1 100]"

definition storeGap :: store where
  "storeGap = taskStore [staticTask 10 1 100, staticTask 11 3 200]"

definition storeDup :: store where
  "storeDup = taskStore [staticTask 10 1 100, staticTask 11 1 200, staticTask 12 5 300]"

definition storeProper :: store where
  "storeProper = taskStore [staticTask 10 1 100, staticTask 11 2 200, staticTask 12 3 300]"

text \<open>A store of user 1 with two tasks of day 0: task 20 with the subtasks 30 and 31 and a
  stale instance that knows subtask 30 and a subtask 39 that is gone, and task 21 with the
  subtask 32 and no instance yet.\<close>

definition dayTask :: "oid \<Rightarrow> int \<Rightarrow> oid list \<Rightarrow> task" where
  "dayTask i ord subs =
     \<lparr>task_id = i, task_title = ''d'', task_completed = False, task_order = ord,
      startDate = Some 0, endDate = Some 0, task_userId = 1, createdBy = None,
      subtasks = subs, createdAt = 5\<rparr>"

definition subtaskDoc :: "oid \<Rightarrow> oid \<Rightarrow> subtask" where
  "subtaskDoc i t =
     \<lparr>sub_id = i, sub_title = ''s'', sub_completed = False, sub_notes = [], sub_taskId = t\<rparr>"

definition staleInstance :: task_instance where
  "staleInstance =
     \<lparr>ti_id = 40, ti_taskId = 20, ti_userId = 1, ti_date = 0, ti_completed = False,
      subtaskInstances = [\<lparr>si_subtaskId = 39, si_completed = True\<rparr>,
                          \<lparr>si_subtaskId = 30, si_completed = True\<rparr>]\<rparr>"

definition storeDay :: store where
  "storeDay =
     \<lparr>users = [], whitelist = [], resetCodes = [],
      tasks = [dayTask 20 1 [30, 31], dayTask 21 2 [32]],
      subtaskDocs = [subtaskDoc 30 20, subtaskDoc 31 20, subtaskDoc 32 21],
      taskInstances = [staleInstance],
      nextId = 50\<rparr>"

text \<open>A store of user 1 with two tasks of day 0 that both have the order 0: task 20, and
  task 21, which starts at 20:00 and ends at the time \<open>e\<close> of that day.\<close>

definition lateTask :: "date \<Rightarrow> task" where
  "lateTask e = (dayTask 21 0 [])\<lparr>startDate := Some 72000000, endDate := Some e\<rparr>"

definition storeLate :: "date \<Rightarrow> store" where
  "storeLate e = taskStore [dayTask 20 0 [], lateTask e]"

text \<open>A store with the bootstrap admin, a registered user whose whitelist entry is used,
  and two unused reset codes, one of them of another email; and a stand-in for the email
  validator and for the password hash.\<close>

definition hasAt :: "string \<Rightarrow> bool" where
  "hasAt s \<longleftrightarrow> CHR ''@'' \<in> set s"

definition hashed :: "string \<Rightarrow> string" where
  "hashed s = CHR ''#'' # s"

definition adminUser :: user where
  "adminUser = \<lparr>user_id = 1, user_name = ''admin'', user_email = ''admin@afterlife.org.in'',
     user_password = ''#secret'', isAdmin = True\<rparr>"

definition storeAuth :: store where
  "storeAuth =
     \<lparr>users = [adminUser,
               \<lparr>user_id = 2, user_name = ''x'', user_email = ''x@y.com'',
                user_password = ''#hidden'', isAdmin = False\<rparr>],
      whitelist = [\<lparr>wl_id = 3, wl_email = ''x@y.com'', addedBy = 1, isUsed = True,
                    usedBy = Some 2\<rparr>],
      resetCodes = [\<lparr>rc_id = 60, rc_code = ''123456'', rc_email = ''x@y.com'', generatedBy = 1,
                     rc_isUsed = False, usedAt = None, expiresAt = 1000\<rparr>,
                    \<lparr>rc_id = 61, rc_code = ''100007'', rc_email = ''z@y.com'', generatedBy = 1,
                     rc_isUsed = False, usedAt = None, expiresAt = 1000\<rparr>],
      tasks = [], subtaskDocs = [], taskInstances = [], nextId = 70\<rparr>"

definition issuedCode :: reset_code where
  "issuedCode = \<lparr>rc_id = 70, rc_code = ''100008'', rc_email = ''x@y.com'', generatedBy = 1,
     rc_isUsed = False, usedAt = None, expiresAt = 86400005\<rparr>"

section \<open>Properties\<close>

lemma findIndex_Some:
  "findIndex p xs = Some k \<Longrightarrow> k < length xs \<and> p (xs ! k) \<and> (\<forall>j<k. \<not> p (xs ! j))"
proof (induction xs arbitrary: k)
  case Nil
  then show ?case by simp
next
  case (Cons x xs)
  show ?case
  proof (cases "p x")
    case True
    with Cons.prems show ?thesis by simp
  next
    case False
    with Cons.prems obtain k' where k': "findIndex p xs = Some k'" "k = Suc k'"
      by auto
    from Cons.IH[OF k'(1)] False k'(2) show ?thesis
      by (auto simp: nth_Cons split: nat.splits)
  qed
qed

lemma findIndex_None: "findIndex p xs = None \<longleftrightarrow> (\<forall>x\<in>set xs. \<not> p x)"
  by (induction xs) auto

lemma find_map_replace:
  assumes "find p xs = Some a" and "p b" and "q a"
  shows "find p (map (\<lambda>j. if q j then b else j) xs) = Some b"
  using assms by (induction xs) (auto split: if_splits)

lemma findInstance_saveInstance:
  assumes "findInstance st iid uid = Some inst"
    and "ti_id inst' = iid" and "ti_userId inst' = uid"
  shows "findInstance (saveInstance inst' st) iid uid = Some inst'"
proof -
  have "find (\<lambda>i. ti_id i = iid \<and> ti_userId i = uid)
          (map (\<lambda>j. if ti_id j = iid then inst' else j) (taskInstances st)) = Some inst'"
    using assms by (intro find_map_replace[where a = inst]) (auto simp: findInstance_def find_Some_iff)
  then show ?thesis
    using assms(2) by (simp add: findInstance_def saveInstance_def)
qed

lemma findInstance_SomeD:
  "findInstance st iid uid = Some inst \<Longrightarrow> ti_id inst = iid \<and> ti_userId inst = uid"
  by (auto simp: findInstance_def find_Some_iff)

text \<open>
  C5.  Toggling a task instance directly negates its \<open>completed\<close> flag, sets the flag of
  every embedded subtask instance to the new value, leaves the entries' subtask references
  as they were, and stores the instance.
\<close>

theorem toggleInstanceComplete_cascades:
  assumes "toggleInstanceComplete st uid iid = (Inr inst', st')"
  shows "\<exists>inst. findInstance st iid uid = Some inst
           \<and> ti_completed inst' = (\<not> ti_completed inst)
           \<and> (\<forall>si \<in> set (subtaskInstances inst'). si_completed si = ti_completed inst')
           \<and> map si_subtaskId (subtaskInstances inst') = map si_subtaskId (subtaskInstances inst)
           \<and> findInstance st' iid uid = Some inst'"
proof (cases "findInstance st iid uid")
  case None
  with assms show ?thesis by (simp add: toggleInstanceComplete_def)
next
  case (Some inst)
  define c where "c = (\<not> ti_completed inst)"
  define new where "new = inst\<lparr>ti_completed := c,
      subtaskInstances := map (\<lambda>si. si\<lparr>si_completed := c\<rparr>) (subtaskInstances inst)\<rparr>"
  have "toggleInstanceComplete st uid iid = (Inr new, saveInstance new st)"
    unfolding toggleInstanceComplete_def new_def c_def Let_def
    by (simp only: Some option.case)
  with assms have res: "inst' = new" "st' = saveInstance new st"
    by auto
  have ids: "ti_id new = iid" "ti_userId new = uid"
    using findInstance_SomeD[OF Some] by (simp_all add: new_def)
  have "findInstance st' iid uid = Some inst'"
    unfolding res by (rule findInstance_saveInstance[OF Some ids])
  moreover have "ti_completed inst' = (\<not> ti_completed inst)"
    by (simp add: res new_def c_def)
  moreover have "\<forall>si \<in> set (subtaskInstances inst'). si_completed si = ti_completed inst'"
    by (auto simp: res new_def)
  moreover have "map si_subtaskId (subtaskInstances inst') = map si_subtaskId (subtaskInstances inst)"
    by (simp add: res new_def comp_def)
  ultimately show ?thesis using Some by blast
qed

theorem toggleInstanceComplete_cascades_witness:
  "toggleInstanceComplete store0 2 7 = (Inr inst0', store0\<lparr>taskInstances := [inst0']\<rparr>)
   \<and> (\<exists>inst. findInstance store0 7 2 = Some inst
           \<and> ti_completed inst0' = (\<not> ti_completed inst)
           \<and> (\<forall>si \<in> set (subtaskInstances inst0'). si_completed si = ti_completed inst0')
           \<and> map si_subtaskId (subtaskInstances inst0') = map si_subtaskId (subtaskInstances inst)
           \<and> findInstance (store0\<lparr>taskInstances := [inst0']\<rparr>) 7 2 = Some inst0')"
proof -
  have run: "toggleInstanceComplete store0 2 7 = (Inr inst0', store0\<lparr>taskInstances := [inst0']\<rparr>)"
    by (simp add: toggleInstanceComplete_def findInstance_def saveInstance_def store0_def
        inst0'_def Let_def)
  from toggleInstanceComplete_cascades[OF run] run show ?thesis by blast
qed

text \<open>
  C4.  Toggling a subtask instance flips the first entry of the instance that refers to the
  subtask and recomputes the instance's own flag: it is true when every entry is complete
  after the toggle, and false when some entry is incomplete and the flag was true before
  (so that afterwards the flag says exactly whether every entry is complete).  The instance
  is stored, and whatever the outcome the Task and Subtask collections stay as they were.
\<close>

theorem toggleSubtaskInstance_recomputes:
  "tasks (snd (toggleSubtaskInstance st uid iid sid)) = tasks st
   \<and> subtaskDocs (snd (toggleSubtaskInstance st uid iid sid)) = subtaskDocs st
   \<and> (\<forall>inst' st'. toggleSubtaskInstance st uid iid sid = (Inr inst', st') \<longrightarrow>
        (\<exists>inst k. findInstance st iid uid = Some inst
           \<and> findIndex (\<lambda>si. si_subtaskId si = sid) (subtaskInstances inst) = Some k
           \<and> subtaskInstances inst' =
               (subtaskInstances inst)
                 [k := (subtaskInstances inst ! k)
                         \<lparr>si_completed := \<not> si_completed (subtaskInstances inst ! k)\<rparr>]
           \<and> ((\<forall>si \<in> set (subtaskInstances inst'). si_completed si) \<longrightarrow> ti_completed inst')
           \<and> ((\<exists>si \<in> set (subtaskInstances inst'). \<not> si_completed si) \<and> ti_completed inst
                 \<longrightarrow> \<not> ti_completed inst')
           \<and> (ti_completed inst' \<longleftrightarrow> (\<forall>si \<in> set (subtaskInstances inst'). si_completed si))
           \<and> findInstance st' iid uid = Some inst'))"
proof (intro conjI allI impI)
  show "tasks (snd (toggleSubtaskInstance st uid iid sid)) = tasks st"
    by (simp add: toggleSubtaskInstance_def saveInstance_def Let_def split: option.splits)
  show "subtaskDocs (snd (toggleSubtaskInstance st uid iid sid)) = subtaskDocs st"
    by (simp add: toggleSubtaskInstance_def saveInstance_def Let_def split: option.splits)
next
  fix inst' st'
  assume run: "toggleSubtaskInstance st uid iid sid = (Inr inst', st')"
  from run obtain inst where inst: "findInstance st iid uid = Some inst"
    by (auto simp: toggleSubtaskInstance_def split: option.splits)
  from run inst obtain k where
    k: "findIndex (\<lambda>si. si_subtaskId si = sid) (subtaskInstances inst) = Some k"
    by (auto simp: toggleSubtaskInstance_def split: option.splits)
  define old where "old = subtaskInstances inst ! k"
  define sis where "sis = (subtaskInstances inst)[k := old\<lparr>si_completed := \<not> si_completed old\<rparr>]"
  define c where "c = (if list_all si_completed sis \<and> length sis > 0 then True
                        else if list_ex (\<lambda>si. \<not> si_completed si) sis \<and> ti_completed inst then False
                        else ti_completed inst)"
  define new where "new = inst\<lparr>ti_completed := c, subtaskInstances := sis\<rparr>"
  have "toggleSubtaskInstance st uid iid sid = (Inr new, saveInstance new st)"
    unfolding toggleSubtaskInstance_def new_def c_def sis_def old_def Let_def
    by (simp only: inst k option.case)
  with run have res: "inst' = new" "st' = saveInstance new st"
    by auto
  have klen: "k < length (subtaskInstances inst)"
    using findIndex_Some[OF k] by simp
  then have nonempty: "length sis > 0"
    by (auto simp: sis_def)
  have sis': "subtaskInstances inst' = sis" and c': "ti_completed inst' = c"
    by (simp_all add: res new_def)
  have c_iff: "c \<longleftrightarrow> (\<forall>si \<in> set sis. si_completed si)"
    using nonempty by (auto simp: c_def list_all_iff list_ex_iff)
  have ids: "ti_id new = iid" "ti_userId new = uid"
    using findInstance_SomeD[OF inst] by (simp_all add: new_def)
  have stored: "findInstance st' iid uid = Some inst'"
    unfolding res by (rule findInstance_saveInstance[OF inst ids])
  show "\<exists>inst k. findInstance st iid uid = Some inst
           \<and> findIndex (\<lambda>si. si_subtaskId si = sid) (subtaskInstances inst) = Some k
           \<and> subtaskInstances inst' =
               (subtaskInstances inst)
                 [k := (subtaskInstances inst ! k)
                         \<lparr>si_completed := \<not> si_completed (subtaskInstances inst ! k)\<rparr>]
           \<and> ((\<forall>si \<in> set (subtaskInstances inst'). si_completed si) \<longrightarrow> ti_completed inst')
           \<and> ((\<exists>si \<in> set (subtaskInstances inst'). \<not> si_completed si) \<and> ti_completed inst
                 \<longrightarrow> \<not> ti_completed inst')
           \<and> (ti_completed inst' \<longleftrightarrow> (\<forall>si \<in> set (subtaskInstances inst'). si_completed si))
           \<and> findInstance st' iid uid = Some inst'"
  proof (intro exI[of _ inst] exI[of _ k] conjI)
    show "subtaskInstances inst' =
               (subtaskInstances inst)
                 [k := (subtaskInstances inst ! k)
                         \<lparr>si_completed := \<not> si_completed (subtaskInstances inst ! k)\<rparr>]"
      by (simp add: sis' sis_def old_def)
    show "(\<forall>si \<in> set (subtaskInstances inst'). si_completed si) \<longrightarrow> ti_completed inst'"
      using c_iff by (simp add: sis' c')
    show "(\<exists>si \<in> set (subtaskInstances inst'). \<not> si_completed si) \<and> ti_completed inst
                 \<longrightarrow> \<not> ti_completed inst'"
      using c_iff by (auto simp: sis' c')
    show "ti_completed inst' \<longleftrightarrow> (\<forall>si \<in> set (subtaskInstances inst'). si_completed si)"
      using c_iff by (simp add: sis' c')
  qed (fact inst k stored)+
qed

theorem toggleSubtaskInstance_recomputes_witness:
  "toggleSubtaskInstance store0 2 7 4 = (Inr inst1', store0\<lparr>taskInstances := [inst1']\<rparr>)
   \<and> \<not> ti_completed inst1'
   \<and> findInstance (store0\<lparr>taskInstances := [inst1']\<rparr>) 7 2 = Some inst1'
   \<and> tasks (snd (toggleSubtaskInstance store0 2 7 4)) = tasks store0"
proof -
  have run: "toggleSubtaskInstance store0 2 7 4 = (Inr inst1', store0\<lparr>taskInstances := [inst1']\<rparr>)"
    by (simp add: toggleSubtaskInstance_def findInstance_def saveInstance_def store0_def
        inst1'_def Let_def)
  have "findInstance (store0\<lparr>taskInstances := [inst1']\<rparr>) 7 2 = Some inst1'"
    using toggleSubtaskInstance_recomputes[of store0 2 7 4] run by blast
  moreover have "\<not> ti_completed inst1'"
    by (simp add: inst1'_def)
  moreover have "tasks (snd (toggleSubtaskInstance store0 2 7 4)) = tasks store0"
    using toggleSubtaskInstance_recomputes[of store0 2 7 4] by blast
  ultimately show ?thesis using run by blast
qed

subsection \<open>Sorting\<close>

lemma insertBy_insort_key:
  assumes "\<And>a b. cmp a b \<le> 0 \<longleftrightarrow> f a \<le> f b"
  shows "insertBy cmp x ys = insort_key f x ys"
  using assms by (induction ys) simp_all

lemma sortBy_sort_key:
  assumes "\<And>a b. cmp a b \<le> 0 \<longleftrightarrow> f a \<le> f b"
  shows "sortBy cmp xs = sort_key f xs"
proof -
  have "insertBy cmp = insort_key f"
    using insertBy_insort_key[OF assms] by (intro ext)
  then show ?thesis
    by (simp add: sortBy_def sort_key_def)
qed

lemma sortBy_byOrder: "sortBy byOrder xs = sort_key task_order xs"
  by (rule sortBy_sort_key) (simp add: byOrder_def)

lemma sortBy_byOrderOldestFirst:
  "sortBy byOrderOldestFirst xs = sort_key (\<lambda>t. (task_order t, createdAt t)) xs"
  by (rule sortBy_sort_key) (auto simp: byOrderOldestFirst_def less_eq_prod_def)

lemma sortBy_byOrderNewestFirst:
  "sortBy byOrderNewestFirst xs = sort_key (\<lambda>t. (task_order t, - createdAt t)) xs"
  by (rule sortBy_sort_key) (auto simp: byOrderNewestFirst_def less_eq_prod_def)

lemma siblingGroup_sort_filter:
  "\<exists>P. siblingGroup st uid t =
         sort_key (\<lambda>t. (task_order t, - createdAt t)) (filter P (tasks st))"
proof (cases "\<exists>s e. startDate t = Some s \<and> endDate t = Some e")
  case True
  then obtain s e where "startDate t = Some s" "endDate t = Some e" by blast
  then have "siblingGroup st uid t = findTasksForDate st uid s"
    by (simp add: siblingGroup_def)
  then show ?thesis
    unfolding findTasksForDate_def sortBy_byOrderNewestFirst by blast
next
  case False
  then have "siblingGroup st uid t = sortBy byOrderNewestFirst (findStaticTasks st uid)"
    by (auto simp: siblingGroup_def split: option.splits)
  then show ?thesis
    unfolding findStaticTasks_def sortBy_byOrderNewestFirst by blast
qed

lemma set_siblingGroup: "set (siblingGroup st uid t) \<subseteq> set (tasks st)"
proof -
  obtain P where "siblingGroup st uid t =
      sort_key (\<lambda>t. (task_order t, - createdAt t)) (filter P (tasks st))"
    using siblingGroup_sort_filter by blast
  then show ?thesis by simp
qed

lemma distinct_map_sort_key:
  "distinct (map f (sort_key k xs)) \<longleftrightarrow> distinct (map f xs)"
proof -
  have "mset (map f (sort_key k xs)) = mset (map f xs)"
    by simp
  then show ?thesis
    by (rule mset_eq_imp_distinct_iff)
qed

lemma distinct_ids_siblingGroup:
  assumes "distinct (map task_id (tasks st))"
  shows "distinct (map task_id (siblingGroup st uid t))"
proof -
  obtain P where "siblingGroup st uid t =
      sort_key (\<lambda>t. (task_order t, - createdAt t)) (filter P (tasks st))"
    using siblingGroup_sort_filter by blast
  then show ?thesis
    using assms by (simp add: distinct_map_sort_key distinct_map_filter)
qed

subsection \<open>Reordering\<close>

lemma map_task_id_assignSequential [simp]:
  "map task_id (assignSequential ts) = map task_id ts"
proof -
  have "map task_id (assignSequential ts) = map (task_id \<circ> snd) (enumerate 0 ts)"
    by (simp add: assignSequential_def comp_def case_prod_beta)
  also have "\<dots> = map task_id (map snd (enumerate 0 ts))"
    by (simp only: map_map)
  also have "\<dots> = map task_id ts"
    by (simp only: map_snd_enumerate)
  finally show ?thesis .
qed

lemma length_assignSequential [simp]: "length (assignSequential ts) = length ts"
  by (simp add: assignSequential_def)

lemma length_repairOrders [simp]: "length (repairOrders ts) = length ts"
  by (simp add: repairOrders_def sortBy_byOrderOldestFirst)

lemma length_freshlySorted [simp]: "length (freshlySorted ts) = length ts"
  by (simp add: freshlySorted_def sortBy_byOrder)

lemma distinct_ids_repairOrders:
  "distinct (map task_id (repairOrders ts)) \<longleftrightarrow> distinct (map task_id ts)"
  by (simp add: repairOrders_def sortBy_byOrderOldestFirst distinct_map_sort_key)

lemma distinct_ids_freshlySorted:
  "distinct (map task_id (freshlySorted ts)) \<longleftrightarrow> distinct (map task_id ts)"
  by (simp add: freshlySorted_def sortBy_byOrder distinct_map_sort_key distinct_ids_repairOrders)

lemma findIndex_hd: "xs \<noteq> [] \<Longrightarrow> p (hd xs) \<Longrightarrow> findIndex p xs = Some 0"
  by (cases xs) simp_all

lemma findIndex_unique:
  assumes "distinct (map f xs)" and "k < length xs" and "f (xs ! k) = v"
  shows "findIndex (\<lambda>x. f x = v) xs = Some k"
proof (cases "findIndex (\<lambda>x. f x = v) xs")
  case None
  with assms(2,3) show ?thesis
    by (auto simp: findIndex_None)
next
  case (Some j)
  from findIndex_Some[OF Some] have j: "j < length xs" "f (xs ! j) = v"
    by simp_all
  with assms have "map f xs ! j = map f xs ! k" "j < length (map f xs)" "k < length (map f xs)"
    by simp_all
  then have "j = k"
    using nth_eq_iff_index_eq[OF assms(1), of j k] by blast
  with Some show ?thesis by simp
qed

lemma findTask_member:
  "findTask st tid uid = Some t \<Longrightarrow> t \<in> set (tasks st) \<and> task_id t = tid \<and> task_userId t = uid"
  by (auto simp: findTask_def find_Some_iff)

lemma hasProperOrders_iff:
  "hasProperOrders ts \<longleftrightarrow> (\<forall>t \<in> set ts. 0 < task_order t) \<and> distinct (map task_order ts)"
proof -
  have "length (remdups (map task_order ts)) = length (map task_order ts)
          \<longleftrightarrow> distinct (map task_order ts)"
    by (simp only: length_remdups_eq remdups_id_iff_distinct)
  then show ?thesis
    by (simp add: hasProperOrders_def list_all_iff)
qed

lemma hasProperOrders_distinct: "hasProperOrders ts \<Longrightarrow> distinct (map task_order ts)"
  by (simp add: hasProperOrders_iff)

lemma reorderTask_big_group:
  assumes "direction = ''up'' \<or> direction = ''down''"
    and "findTask st tid uid = Some task"
    and "\<not> length (siblingGroup st uid task) \<le> 1"
    and "p = (if hasProperOrders (siblingGroup st uid task) then (True, st)
              else saveEach (repairOrders (siblingGroup st uid task)) st)"
  shows "reorderTask st uid tid direction =
     (if \<not> fst p
      then (Inl (HttpError 500 ''Server error while updating task order''), snd p)
      else case findIndex (\<lambda>t. task_id t = tid) (freshlySorted (siblingGroup st uid task)) of
             None \<Rightarrow> (Inl (HttpError 404 ''Task not found in list''), snd p)
           | Some currentIndex \<Rightarrow>
               if direction = ''up'' \<and> currentIndex > 0
               then swapOrders (freshlySorted (siblingGroup st uid task))
                      currentIndex (currentIndex - 1) (snd p)
               else if direction = ''down''
                       \<and> currentIndex < length (freshlySorted (siblingGroup st uid task)) - 1
               then swapOrders (freshlySorted (siblingGroup st uid task))
                      currentIndex (currentIndex + 1) (snd p)
               else (Inl (HttpError 400 (''Cannot move task '' @ direction)), snd p))"
proof -
  have "reorderTask st uid tid direction =
     (let (saved, st1) = p;
          sorted = freshlySorted (siblingGroup st uid task)
      in if \<not> saved
         then (Inl (HttpError 500 ''Server error while updating task order''), st1)
         else case findIndex (\<lambda>t. task_id t = tid) sorted of
           None \<Rightarrow> (Inl (HttpError 404 ''Task not found in list''), st1)
         | Some currentIndex \<Rightarrow>
             if direction = ''up'' \<and> currentIndex > 0
             then swapOrders sorted currentIndex (currentIndex - 1) st1
             else if direction = ''down'' \<and> currentIndex < length sorted - 1
             then swapOrders sorted currentIndex (currentIndex + 1) st1
             else (Inl (HttpError 400 (''Cannot move task '' @ direction)), st1))"
    using assms(1,2,3) unfolding assms(4) reorderTask_def
    by (auto simp: Let_def)
  then show ?thesis
    by (simp add: Let_def case_prod_beta)
qed

lemma reorderTask_small_group:
  assumes "findTask st tid uid = Some task"
    and "length (siblingGroup st uid task) \<le> 1"
  shows "\<exists>e. reorderTask st uid tid direction = (Inl e, st)"
  using assms by (simp add: reorderTask_def)

lemma reorderTask_at_index:
  assumes "findTask st tid uid = Some task"
    and "findIndex (\<lambda>t. task_id t = tid) (freshlySorted (siblingGroup st uid task)) = Some k"
    and "direction = ''up'' \<and> k = 0
         \<or> direction = ''down'' \<and> k = length (siblingGroup st uid task) - 1"
  shows "\<exists>e. fst (reorderTask st uid tid direction) = Inl e"
proof (cases "length (siblingGroup st uid task) \<le> 1")
  case True
  with assms(1) show ?thesis
    by (simp add: reorderTask_def)
next
  case False
  define p where "p = (if hasProperOrders (siblingGroup st uid task) then (True, st)
              else saveEach (repairOrders (siblingGroup st uid task)) st)"
  from assms(3) have dir: "direction = ''up'' \<or> direction = ''down''"
    by blast
  note run = reorderTask_big_group[OF dir assms(1) False p_def]
  from assms(3) show ?thesis
  proof
    assume "direction = ''up'' \<and> k = 0"
    with assms(2) show ?thesis
      unfolding run by simp
  next
    assume "direction = ''down'' \<and> k = length (siblingGroup st uid task) - 1"
    with assms(2) show ?thesis
      unfolding run by simp
  qed
qed

lemma reorderTask_first_last_fail:
  assumes "distinct (map task_id (tasks st))"
    and "findTask st tid uid = Some task"
  shows "(siblingGroup st uid task \<noteq> []
            \<and> task_id (hd (freshlySorted (siblingGroup st uid task))) = tid \<longrightarrow>
            (\<exists>e. fst (reorderTask st uid tid ''up'') = Inl e))
       \<and> (siblingGroup st uid task \<noteq> []
            \<and> task_id (last (freshlySorted (siblingGroup st uid task))) = tid \<longrightarrow>
            (\<exists>e. fst (reorderTask st uid tid ''down'') = Inl e))"
proof (intro conjI impI)
  let ?s = "freshlySorted (siblingGroup st uid task)"
  assume "siblingGroup st uid task \<noteq> [] \<and> task_id (hd ?s) = tid"
  then have "?s \<noteq> []" "task_id (hd ?s) = tid"
    by (metis length_freshlySorted length_0_conv)+
  then have "findIndex (\<lambda>t. task_id t = tid) ?s = Some 0"
    by (rule findIndex_hd)
  with assms(2) show "\<exists>e. fst (reorderTask st uid tid ''up'') = Inl e"
    by (rule reorderTask_at_index) simp
next
  let ?g = "siblingGroup st uid task"
  let ?s = "freshlySorted ?g"
  assume a: "?g \<noteq> [] \<and> task_id (last ?s) = tid"
  then have ne: "?s \<noteq> []"
    by (metis length_freshlySorted length_0_conv)
  have "distinct (map task_id ?s)"
    using distinct_ids_siblingGroup[OF assms(1)] by (simp add: distinct_ids_freshlySorted)
  moreover have "length ?s - 1 < length ?s"
  proof -
    from ne have "0 < length ?s"
      by (simp del: length_freshlySorted)
    then show ?thesis
      by (rule diff_less[OF zero_less_one])
  qed
  moreover have "task_id (?s ! (length ?s - 1)) = tid"
    using a ne by (simp add: last_conv_nth)
  ultimately have "findIndex (\<lambda>t. task_id t = tid) ?s = Some (length ?s - 1)"
    by (rule findIndex_unique)
  with assms(2) show "\<exists>e. fst (reorderTask st uid tid ''down'') = Inl e"
    by (rule reorderTask_at_index) simp
qed

lemma sorted_least_first:
  assumes "sorted (map f xs)" and "x \<in> set xs"
  shows "f (hd xs) \<le> f x"
  using assms by (cases xs) auto

lemma sorted_greatest_last:
  assumes "sorted (map f xs)" and "x \<in> set xs"
  shows "f x \<le> f (last xs)"
  using assms by (induction xs) (auto split: if_splits)

lemma hd_sort_key_least:
  assumes "distinct (map f xs)" and "x \<in> set xs" and "\<forall>y \<in> set xs. f x \<le> f y"
  shows "hd (sort_key f xs) = x"
proof -
  let ?s = "sort_key f xs"
  have ne: "?s \<noteq> []"
    using assms(2) by (metis empty_iff list.set(1) set_sort)
  then have mem: "hd ?s \<in> set xs"
    by (metis hd_in_set set_sort)
  have "f (hd ?s) \<le> f x"
    using assms(2) by (intro sorted_least_first) simp_all
  with assms(3) mem have "f (hd ?s) = f x"
    by (meson order_antisym)
  with assms(1,2) mem show ?thesis
    by (meson distinct_map inj_onD)
qed

lemma last_sort_key_greatest:
  assumes "distinct (map f xs)" and "x \<in> set xs" and "\<forall>y \<in> set xs. f y \<le> f x"
  shows "last (sort_key f xs) = x"
proof -
  let ?s = "sort_key f xs"
  have ne: "?s \<noteq> []"
    using assms(2) by (metis empty_iff list.set(1) set_sort)
  then have mem: "last ?s \<in> set xs"
    by (metis last_in_set set_sort)
  have "f x \<le> f (last ?s)"
    using assms(2) by (intro sorted_greatest_last) simp_all
  with assms(3) mem have "f (last ?s) = f x"
    by (meson order_antisym)
  with assms(1,2) mem show ?thesis
    by (meson distinct_map inj_onD)
qed

text \<open>
  C6.  A reorder request on a sibling group of at most one task fails and leaves the store
  as it was.  A request to move up the task that stands first in the freshly sorted group
  (the group after the repair, if one was due, sorted by order) fails, and so does a request
  to move down the task that stands last.  In a group whose orders are positive and
  pairwise different, the first task is the one with the least order and the last task the
  one with the greatest.
\<close>

theorem reorderTask_boundaries_fail:
  assumes "distinct (map task_id (tasks st))"
    and "findTask st tid uid = Some task"
  shows "(length (siblingGroup st uid task) \<le> 1 \<longrightarrow>
            (\<exists>e. reorderTask st uid tid direction = (Inl e, st)))
       \<and> (siblingGroup st uid task \<noteq> []
            \<and> task_id (hd (freshlySorted (siblingGroup st uid task))) = tid \<longrightarrow>
            (\<exists>e. fst (reorderTask st uid tid ''up'') = Inl e))
       \<and> (siblingGroup st uid task \<noteq> []
            \<and> task_id (last (freshlySorted (siblingGroup st uid task))) = tid \<longrightarrow>
            (\<exists>e. fst (reorderTask st uid tid ''down'') = Inl e))
       \<and> (hasProperOrders (siblingGroup st uid task) \<and> task \<in> set (siblingGroup st uid task)
            \<and> (\<forall>t \<in> set (siblingGroup st uid task). task_order task \<le> task_order t) \<longrightarrow>
            (\<exists>e. fst (reorderTask st uid tid ''up'') = Inl e))
       \<and> (hasProperOrders (siblingGroup st uid task) \<and> task \<in> set (siblingGroup st uid task)
            \<and> (\<forall>t \<in> set (siblingGroup st uid task). task_order t \<le> task_order task) \<longrightarrow>
            (\<exists>e. fst (reorderTask st uid tid ''down'') = Inl e))"
proof -
  let ?g = "siblingGroup st uid task"
  note ends = reorderTask_first_last_fail[OF assms]
  have tid: "task_id task = tid"
    using findTask_member[OF assms(2)] by simp
  have 1: "length ?g \<le> 1 \<longrightarrow> (\<exists>e. reorderTask st uid tid direction = (Inl e, st))"
    using reorderTask_small_group[OF assms(2)] by blast
  have 4: "\<exists>e. fst (reorderTask st uid tid ''up'') = Inl e"
    if p: "hasProperOrders ?g" and m: "task \<in> set ?g"
      and least: "\<forall>t \<in> set ?g. task_order task \<le> task_order t"
  proof -
    have "freshlySorted ?g = sort_key task_order ?g"
      using p by (simp add: freshlySorted_def sortBy_byOrder)
    moreover have "hd (sort_key task_order ?g) = task"
      using hasProperOrders_distinct[OF p] m least by (rule hd_sort_key_least)
    ultimately have "task_id (hd (freshlySorted ?g)) = tid"
      using tid by simp
    moreover have "?g \<noteq> []"
      using m by auto
    ultimately show ?thesis
      using ends by blast
  qed
  have 5: "\<exists>e. fst (reorderTask st uid tid ''down'') = Inl e"
    if p: "hasProperOrders ?g" and m: "task \<in> set ?g"
      and greatest: "\<forall>t \<in> set ?g. task_order t \<le> task_order task"
  proof -
    have "freshlySorted ?g = sort_key task_order ?g"
      using p by (simp add: freshlySorted_def sortBy_byOrder)
    moreover have "last (sort_key task_order ?g) = task"
      using hasProperOrders_distinct[OF p] m greatest by (rule last_sort_key_greatest)
    ultimately have "task_id (last (freshlySorted ?g)) = tid"
      using tid by simp
    moreover have "?g \<noteq> []"
      using m by auto
    ultimately show ?thesis
      using ends by blast
  qed
  from 1 ends 4 5 show ?thesis
    by blast
qed

theorem reorderTask_boundaries_fail_witness:
  "distinct (map task_id (tasks storeGap))
   \<and> findTask storeGap 10 1 = Some (staticTask 10 1 100)
   \<and> findTask storeGap 11 1 = Some (staticTask 11 3 200)
   \<and> task_id (hd (freshlySorted (siblingGroup storeGap 1 (staticTask 10 1 100)))) = 10
   \<and> task_id (last (freshlySorted (siblingGroup storeGap 1 (staticTask 11 3 200)))) = 11
   \<and> length (siblingGroup storeOne 1 (staticTask 10 1 100)) \<le> 1
   \<and> (\<exists>e. reorderTask storeOne 1 10 ''down'' = (Inl e, storeOne))
   \<and> (\<exists>e. fst (reorderTask storeGap 1 10 ''up'') = Inl e)
   \<and> (\<exists>e. fst (reorderTask storeGap 1 11 ''down'') = Inl e)"
proof -
  have d: "distinct (map task_id (tasks storeGap))"
    by (simp add: storeGap_def taskStore_def staticTask_def)
  have d1: "distinct (map task_id (tasks storeOne))"
    by (simp add: storeOne_def taskStore_def staticTask_def)
  have f10: "findTask storeGap 10 1 = Some (staticTask 10 1 100)"
    by (simp add: findTask_def storeGap_def taskStore_def staticTask_def)
  have f11: "findTask storeGap 11 1 = Some (staticTask 11 3 200)"
    by (simp add: findTask_def storeGap_def taskStore_def staticTask_def)
  have f1: "findTask storeOne 10 1 = Some (staticTask 10 1 100)"
    by (simp add: findTask_def storeOne_def taskStore_def staticTask_def)
  have g: "siblingGroup storeGap 1 t = [staticTask 10 1 100, staticTask 11 3 200]"
    if "startDate t = None" for t
    using that
    by (simp add: siblingGroup_def findStaticTasks_def storeGap_def taskStore_def
        staticTask_def sortBy_def byOrderNewestFirst_def)
  have g1: "siblingGroup storeOne 1 (staticTask 10 1 100) = [staticTask 10 1 100]"
    by (simp add: siblingGroup_def findStaticTasks_def storeOne_def taskStore_def
        staticTask_def sortBy_def)
  have s: "freshlySorted [staticTask 10 1 100, staticTask 11 3 200]
             = [staticTask 10 1 100, staticTask 11 3 200]"
    by (simp add: freshlySorted_def hasProperOrders_def sortBy_def byOrder_def staticTask_def)
  have ga: "siblingGroup storeGap 1 (staticTask 10 1 100) = [staticTask 10 1 100, staticTask 11 3 200]"
    and gb: "siblingGroup storeGap 1 (staticTask 11 3 200) = [staticTask 10 1 100, staticTask 11 3 200]"
    by (rule g, simp add: staticTask_def)+
  have h: "task_id (hd (freshlySorted (siblingGroup storeGap 1 (staticTask 10 1 100)))) = 10"
    unfolding ga s by (simp add: staticTask_def)
  have l: "task_id (last (freshlySorted (siblingGroup storeGap 1 (staticTask 11 3 200)))) = 11"
    unfolding gb s by (simp add: staticTask_def)
  have n1: "length (siblingGroup storeOne 1 (staticTask 10 1 100)) \<le> 1"
    unfolding g1 by simp
  have "\<exists>e. reorderTask storeOne 1 10 ''down'' = (Inl e, storeOne)"
    using reorderTask_boundaries_fail[OF d1 f1, of "''down''"] n1 by blast
  moreover have "\<exists>e. fst (reorderTask storeGap 1 10 ''up'') = Inl e"
  proof -
    have "siblingGroup storeGap 1 (staticTask 10 1 100) \<noteq> []"
      unfolding ga by simp
    with reorderTask_boundaries_fail[OF d f10, of "''up''"] h show ?thesis by blast
  qed
  moreover have "\<exists>e. fst (reorderTask storeGap 1 11 ''down'') = Inl e"
  proof -
    have "siblingGroup storeGap 1 (staticTask 11 3 200) \<noteq> []"
      unfolding gb by simp
    with reorderTask_boundaries_fail[OF d f11, of "''up''"] l show ?thesis by blast
  qed
  ultimately show ?thesis
    using d f10 f11 h l n1 by blast
qed

lemma find_id_member:
  assumes "distinct (map task_id xs)" and "t \<in> set xs"
  shows "find (\<lambda>u. task_id u = task_id t) xs = Some t"
  using assms by (induction xs) auto

lemma find_map_replace_id:
  "find (\<lambda>u. task_id u = i) (map (\<lambda>u. if task_id u = task_id t then t else u) xs) =
     (if i = task_id t then (if i \<in> task_id ` set xs then Some t else None)
      else find (\<lambda>u. task_id u = i) xs)"
  by (induction xs) auto

lemma orderOf_saveTask:
  "orderOf (saveTask t st) i =
     (if i = task_id t
      then (if i \<in> task_id ` set (tasks st) then Some (task_order t) else None)
      else orderOf st i)"
  by (simp add: orderOf_def saveTask_def find_map_replace_id)

lemma ids_saveTask [simp]: "map task_id (tasks (saveTask t st)) = map task_id (tasks st)"
  by (simp add: saveTask_def comp_def cong: map_cong)

lemma orderOf_member:
  assumes "distinct (map task_id (tasks st))" and "t \<in> set (tasks st)"
  shows "orderOf st (task_id t) = Some (task_order t)"
  using find_id_member[OF assms] by (simp add: orderOf_def)

lemma strict_sorted_proper:
  assumes "hasProperOrders ts"
  shows "sorted_wrt (<) (map task_order (sort_key task_order ts))"
proof -
  have "distinct (map task_order (sort_key task_order ts))"
    using hasProperOrders_distinct[OF assms] by (simp add: distinct_map_sort_key)
  moreover have "sorted (map task_order (sort_key task_order ts))"
    by (rule sorted_sort_key)
  ultimately show ?thesis
    by (simp add: strict_sorted_iff)
qed

lemma taskValid_order [simp]: "taskValid (t\<lparr>task_order := n\<rparr>) = taskValid t"
  by (simp add: taskValid_def)

lemma swapOrders_success:
  assumes "swapOrders ts ci ni st = (Inr m, st')"
  shows "st' = saveTask ((ts ! ni)\<lparr>task_order := task_order (ts ! ci)\<rparr>)
                 (saveTask ((ts ! ci)\<lparr>task_order := task_order (ts ! ni)\<rparr>) st)"
  using assms by (auto simp: swapOrders_def Let_def split: if_splits)


lemma reorderTask_proper_success:
  assumes "findTask st tid uid = Some task"
    and "hasProperOrders (siblingGroup st uid task)"
    and "reorderTask st uid tid direction = (Inr moved, st')"
  shows "\<exists>ci ni. findIndex (\<lambda>t. task_id t = tid)
                  (sort_key task_order (siblingGroup st uid task)) = Some ci
           \<and> ni < length (siblingGroup st uid task)
           \<and> (direction = ''up'' \<and> ci = Suc ni \<or> direction = ''down'' \<and> ni = Suc ci)
           \<and> swapOrders (sort_key task_order (siblingGroup st uid task)) ci ni st
               = (Inr moved, st')"
proof -
  let ?g = "siblingGroup st uid task"
  let ?s = "sort_key task_order ?g"
  have fs: "freshlySorted ?g = ?s"
    using assms(2) by (simp add: freshlySorted_def sortBy_byOrder)
  from assms(1,3) have dir: "direction = ''up'' \<or> direction = ''down''"
    by (auto simp: reorderTask_def split: if_splits)
  from assms(1,3) have big: "\<not> length ?g \<le> 1"
    by (auto simp: reorderTask_def split: if_splits)
  have p: "(True, st) = (if hasProperOrders ?g then (True, st) else saveEach (repairOrders ?g) st)"
    using assms(2) by simp
  note run0 = reorderTask_big_group[OF dir assms(1) big p, unfolded fs]
  from run0 assms(3) obtain ci where ci: "findIndex (\<lambda>t. task_id t = tid) ?s = Some ci"
    by (cases "findIndex (\<lambda>t. task_id t = tid) ?s") auto
  have run: "reorderTask st uid tid direction =
      (if direction = ''up'' \<and> ci > 0 then swapOrders ?s ci (ci - 1) st
       else if direction = ''down'' \<and> ci < length ?s - 1 then swapOrders ?s ci (ci + 1) st
       else (Inl (HttpError 400 (''Cannot move task '' @ direction)), st))"
    unfolding run0 by (simp add: ci)
  have cilen: "ci < length ?g"
    using findIndex_Some[OF ci] by simp
  show ?thesis
  proof (cases "direction = ''up'' \<and> ci > 0")
    case True
    with run assms(3) have "swapOrders ?s ci (ci - 1) st = (Inr moved, st')"
      by simp
    moreover from True cilen have "ci - 1 < length ?g" "ci = Suc (ci - 1)"
      by simp_all
    ultimately show ?thesis
      using ci True by blast
  next
    case False
    show ?thesis
    proof (cases "direction = ''down'' \<and> ci < length ?s - 1")
      case True
      with run assms(3) False have "swapOrders ?s ci (ci + 1) st = (Inr moved, st')"
        by (simp split: if_splits)
      moreover from True have "ci + 1 < length ?g" "ci + 1 = Suc ci"
        by auto
      ultimately show ?thesis
        using ci True by metis
    next
      case down: False
      with run assms(3) False show ?thesis
        by (simp split: if_splits)
    qed
  qed
qed

text \<open>
  C2 (as amended).  When the orders of the sibling group are all positive and pairwise
  different, a successful reorder exchanges the order values of the task and of one other
  sibling, its immediate neighbour by order in the requested direction, and the order value
  of every other task is as it was.
\<close>

theorem reorderTask_proper_swap:
  assumes "distinct (map task_id (tasks st))"
    and "findTask st tid uid = Some task"
    and "hasProperOrders (siblingGroup st uid task)"
    and "reorderTask st uid tid direction = (Inr moved, st')"
  shows "\<exists>nb \<in> set (siblingGroup st uid task).
           task_id nb \<noteq> tid
         \<and> (if direction = ''up'' then task_order nb < task_order task
             else task_order task < task_order nb)
         \<and> (\<forall>t \<in> set (siblingGroup st uid task).
               \<not> (min (task_order nb) (task_order task) < task_order t
                  \<and> task_order t < max (task_order nb) (task_order task)))
         \<and> orderOf st' tid = Some (task_order nb)
         \<and> orderOf st' (task_id nb) = Some (task_order task)
         \<and> (\<forall>i. i \<noteq> tid \<and> i \<noteq> task_id nb \<longrightarrow> orderOf st' i = orderOf st i)"
proof -
  let ?g = "siblingGroup st uid task"
  let ?s = "sort_key task_order ?g"
  let ?os = "map task_order ?s"
  from reorderTask_proper_success[OF assms(2,3,4)] obtain ci ni where
    ci: "findIndex (\<lambda>t. task_id t = tid) ?s = Some ci"
    and ni: "ni < length ?g"
    and dir: "direction = ''up'' \<and> ci = Suc ni \<or> direction = ''down'' \<and> ni = Suc ci"
    and st': "swapOrders ?s ci ni st = (Inr moved, st')"
    by blast
  define cur where "cur = ?s ! ci"
  define nb where "nb = ?s ! ni"
  have cilen: "ci < length ?s" and cur_id: "task_id cur = tid"
    using findIndex_Some[OF ci] by (simp_all add: cur_def)
  have nilen: "ni < length ?s"
    using ni by simp
  have cur_in: "cur \<in> set ?g" and nb_in: "nb \<in> set ?g"
    using nth_mem[OF cilen] nth_mem[OF nilen] by (simp_all add: cur_def nb_def)
  then have cur_st: "cur \<in> set (tasks st)" and nb_st: "nb \<in> set (tasks st)"
    using set_siblingGroup[of st uid task] by blast+
  have "find (\<lambda>u. task_id u = tid) (tasks st) = Some cur"
    using find_id_member[OF assms(1) cur_st] by (simp add: cur_id)
  moreover have "find (\<lambda>u. task_id u = tid) (tasks st) = Some task"
    using find_id_member[OF assms(1), of task] findTask_member[OF assms(2)] by auto
  ultimately have cur_task: "cur = task"
    by simp
  have neq: "ci \<noteq> ni"
    using dir by auto
  have dids: "distinct (map task_id ?s)"
    using distinct_ids_siblingGroup[OF assms(1)] by (simp add: distinct_map_sort_key)
  have nb_id: "task_id nb \<noteq> tid"
  proof
    assume "task_id nb = tid"
    then have "map task_id ?s ! ni = map task_id ?s ! ci"
      using cilen nilen cur_id by (simp add: cur_def nb_def)
    then have "ni = ci"
      using nth_eq_iff_index_eq[OF dids, of ni ci] cilen nilen by simp
    with neq show False by simp
  qed
  have strict: "sorted_wrt (<) ?os"
    by (rule strict_sorted_proper[OF assms(3)])
  have less: "task_order (?s ! i) < task_order (?s ! j)" if "i < j" "j < length ?s" for i j
    using sorted_wrt_nth_less[OF strict, of i j] that by simp
  have le: "task_order (?s ! i) \<le> task_order (?s ! j)" if "i \<le> j" "j < length ?s" for i j
    using less[of i j] that by (cases "i = j") auto
  have order_dir: "if direction = ''up'' then task_order nb < task_order cur
                   else task_order cur < task_order nb"
    using dir
  proof
    assume "direction = ''up'' \<and> ci = Suc ni"
    then show ?thesis
      using less[of ni ci] cilen by (simp add: cur_def nb_def)
  next
    assume "direction = ''down'' \<and> ni = Suc ci"
    then show ?thesis
      using less[of ci ni] nilen by (simp add: cur_def nb_def)
  qed
  have between: "\<not> (min (task_order nb) (task_order cur) < task_order t
                    \<and> task_order t < max (task_order nb) (task_order cur))"
    if "t \<in> set ?g" for t
  proof -
    from that have "t \<in> set ?s" by simp
    then obtain j where j: "j < length ?s" "t = ?s ! j"
      by (metis in_set_conv_nth)
    from dir show ?thesis
    proof
      assume up: "direction = ''up'' \<and> ci = Suc ni"
      then have "j \<le> ni \<or> ci \<le> j" by auto
      then have "task_order t \<le> task_order nb \<or> task_order cur \<le> task_order t"
        using le[of j ni] le[of ci j] j nilen by (auto simp: cur_def nb_def)
      with order_dir up show ?thesis
        by auto
    next
      assume down: "direction = ''down'' \<and> ni = Suc ci"
      then have "j \<le> ci \<or> ni \<le> j" by auto
      then have "task_order t \<le> task_order cur \<or> task_order nb \<le> task_order t"
        using le[of j ci] le[of ni j] j cilen by (auto simp: cur_def nb_def)
      with order_dir down show ?thesis
        by auto
    qed
  qed
  define cur' where "cur' = cur\<lparr>task_order := task_order nb\<rparr>"
  define nb' where "nb' = nb\<lparr>task_order := task_order cur\<rparr>"
  have st'_eq: "st' = saveTask nb' (saveTask cur' st)"
    using swapOrders_success[OF st'] by (simp add: cur'_def nb'_def cur_def nb_def)
  have ids': "task_id cur' = tid" "task_id nb' = task_id nb"
    "task_order cur' = task_order nb" "task_order nb' = task_order cur"
    by (simp_all add: cur'_def nb'_def cur_id)
  have mem: "tid \<in> task_id ` set (tasks st)" "task_id nb \<in> task_id ` set (tasks st)"
    using cur_st nb_st cur_id by auto
  have mem': "task_id nb \<in> task_id ` set (tasks (saveTask cur' st))"
    using mem(2) by (metis ids_saveTask set_map)
  have o1: "orderOf st' tid = Some (task_order nb)"
    using nb_id mem(1) by (simp add: st'_eq orderOf_saveTask ids')
  have o2: "orderOf st' (task_id nb) = Some (task_order cur)"
    using mem' by (simp add: st'_eq orderOf_saveTask[of nb'] ids')
  have o3: "\<forall>i. i \<noteq> tid \<and> i \<noteq> task_id nb \<longrightarrow> orderOf st' i = orderOf st i"
    by (simp add: st'_eq orderOf_saveTask ids')
  from nb_in nb_id order_dir between o1 o2 o3 show ?thesis
    unfolding cur_task by blast
qed

theorem reorderTask_proper_swap_witness:
  "distinct (map task_id (tasks storeProper))
   \<and> findTask storeProper 11 1 = Some (staticTask 11 2 200)
   \<and> hasProperOrders (siblingGroup storeProper 1 (staticTask 11 2 200))
   \<and> fst (reorderTask storeProper 1 11 ''up'') = Inr (11, ''t'', 1)
   \<and> (\<exists>nb \<in> set (siblingGroup storeProper 1 (staticTask 11 2 200)).
           task_id nb \<noteq> 11
         \<and> task_order nb < 2
         \<and> orderOf (snd (reorderTask storeProper 1 11 ''up'')) 11 = Some (task_order nb)
         \<and> orderOf (snd (reorderTask storeProper 1 11 ''up'')) (task_id nb) = Some 2
         \<and> (\<forall>i. i \<noteq> 11 \<and> i \<noteq> task_id nb \<longrightarrow>
               orderOf (snd (reorderTask storeProper 1 11 ''up'')) i = orderOf storeProper i))"
proof -
  have d: "distinct (map task_id (tasks storeProper))"
    by (simp add: storeProper_def taskStore_def staticTask_def)
  have f: "findTask storeProper 11 1 = Some (staticTask 11 2 200)"
    by (simp add: findTask_def storeProper_def taskStore_def staticTask_def)
  have p: "hasProperOrders (siblingGroup storeProper 1 (staticTask 11 2 200))"
    by code_simp
  have r: "fst (reorderTask storeProper 1 11 ''up'') = Inr (11, ''t'', 1)"
    by code_simp
  then have run: "reorderTask storeProper 1 11 ''up''
      = (Inr (11, ''t'', 1), snd (reorderTask storeProper 1 11 ''up''))"
    by (metis prod.collapse)
  have o: "task_order (staticTask 11 2 200) = 2"
    by (simp add: staticTask_def)
  let ?st' = "snd (reorderTask storeProper 1 11 ''up'')"
  from reorderTask_proper_swap[OF d f p run] obtain nb where
    nb: "nb \<in> set (siblingGroup storeProper 1 (staticTask 11 2 200))"
      "task_id nb \<noteq> 11"
      "if ''up'' = ''up'' then task_order nb < task_order (staticTask 11 2 200)
       else task_order (staticTask 11 2 200) < task_order nb"
      "orderOf ?st' 11 = Some (task_order nb)"
      "orderOf ?st' (task_id nb) = Some (task_order (staticTask 11 2 200))"
      "\<forall>i. i \<noteq> 11 \<and> i \<noteq> task_id nb \<longrightarrow> orderOf ?st' i = orderOf storeProper i"
    by blast
  from nb(3) have lt: "task_order nb < 2"
    by (simp add: o)
  from nb(5) have o2: "orderOf ?st' (task_id nb) = Some 2"
    by (simp add: o)
  from nb(1,2) lt nb(4) o2 nb(6) have
    "\<exists>nb \<in> set (siblingGroup storeProper 1 (staticTask 11 2 200)).
           task_id nb \<noteq> 11
         \<and> task_order nb < 2
         \<and> orderOf ?st' 11 = Some (task_order nb)
         \<and> orderOf ?st' (task_id nb) = Some 2
         \<and> (\<forall>i. i \<noteq> 11 \<and> i \<noteq> task_id nb \<longrightarrow> orderOf ?st' i = orderOf storeProper i)"
    by blast
  with d f p r show ?thesis
    by (intro conjI)
qed

text \<open>
  C2 as stated fails when the repair runs: in a group with the orders 1, 1 and 5, moving
  the oldest task down succeeds, and the third task, which is neither the moved task nor
  its neighbour, goes from order 5 to order 3.
\<close>

theorem reorderTask_swap_counterexample:
  "map task_id (siblingGroup storeDup 1 (staticTask 10 1 100)) = [11, 10, 12]
   \<and> fst (reorderTask storeDup 1 10 ''down'') = Inr (10, ''t'', 2)
   \<and> orderOf storeDup 12 = Some 5
   \<and> orderOf (snd (reorderTask storeDup 1 10 ''down'')) 12 = Some 3
   \<and> orderOf (snd (reorderTask storeDup 1 10 ''down'')) 10 = Some 2
   \<and> orderOf (snd (reorderTask storeDup 1 10 ''down'')) 11 = Some 1"
  by code_simp

subsection \<open>The repair of the orders\<close>







lemma saveEach_refused: "\<not> list_all taskValid ts \<Longrightarrow> \<not> fst (saveEach ts st)"
  by (induction ts arbitrary: st) simp_all



lemma taskValid_repairOrders: "list_all taskValid (repairOrders ts) = list_all taskValid ts"
proof -
  have "list_all taskValid (assignSequential xs) = list_all taskValid xs" for xs
  proof -
    have "set xs = snd ` set (enumerate 0 xs)"
      by (metis map_snd_enumerate set_map)
    then show ?thesis
      by (simp add: assignSequential_def list_all_iff case_prod_beta)
  qed
  then show ?thesis
    by (simp add: repairOrders_def sortBy_byOrderOldestFirst list_all_iff)
qed







text \<open>When a task of the group is stored with an end date before its start date, the
  repair stops at the save of that task, and the handler answers with status 500.\<close>

lemma reorderTask_refused_save:
  assumes "findTask st tid uid = Some task"
    and "direction = ''up'' \<or> direction = ''down''"
    and "1 < length (siblingGroup st uid task)"
    and "\<not> hasProperOrders (siblingGroup st uid task)"
    and "\<not> list_all taskValid (siblingGroup st uid task)"
  shows "fst (reorderTask st uid tid direction)
           = Inl (HttpError 500 ''Server error while updating task order'')"
proof -
  let ?g = "siblingGroup st uid task"
  have big: "\<not> length ?g \<le> 1"
    using assms(3) by simp
  have p: "saveEach (repairOrders ?g) st
             = (if hasProperOrders ?g then (True, st) else saveEach (repairOrders ?g) st)"
    using assms(4) by simp
  have "\<not> fst (saveEach (repairOrders ?g) st)"
    using assms(5) by (intro saveEach_refused) (simp add: taskValid_repairOrders)
  then show ?thesis
    unfolding reorderTask_big_group[OF assms(2,1) big p] by simp
qed

text \<open>Such a task can be stored: an update that moves the end of task 21 from 22:00 to
  19:00 is accepted, because the range check compares days and the save validates the
  document in memory, whose start date the range check has set to the start of the day.
  A reorder request on task 20 then saves task 20 with its repaired order, is refused at
  task 21, and answers with status 500.\<close>

lemma updateTask_stores_late:
  "updateTask (storeLate 79200000) 1 21
       \<lparr>upd_title = None, upd_completed = None, upd_startDate = Absent,
          upd_endDate = Valid 68400000\<rparr>
     = (Inr ((lateTask 68400000)\<lparr>startDate := Some 0\<rparr>), storeLate 68400000)
   \<and> \<not> taskValid (lateTask 68400000)"
  by code_simp

lemma reorderTask_refused_save_example:
  "reorderTask (storeLate 68400000) 1 20 ''down''
     = (Inl (HttpError 500 ''Server error while updating task order''),
        taskStore [dayTask 20 1 [], lateTask 68400000])"
  by code_simp


subsection \<open>Deleting a task\<close>

lemma deleteOne_distinct:
  assumes "distinct (map f xs)"
  shows "deleteOne (\<lambda>x. f x = v) xs = filter (\<lambda>x. f x \<noteq> v) xs"
  using assms
proof (induction xs)
  case Nil
  then show ?case by simp
next
  case (Cons x xs)
  show ?case
  proof (cases "f x = v")
    case True
    with Cons.prems have "\<forall>y \<in> set xs. f y \<noteq> v"
      by (metis distinct.simps(2) image_eqI list.simps(9) set_map)
    then have "filter (\<lambda>x. f x \<noteq> v) xs = xs"
      by (simp add: filter_id_conv)
    with True show ?thesis by simp
  next
    case False
    with Cons show ?thesis by simp
  qed
qed

text \<open>
  C10.  Whatever the outcome, deleting a task leaves the TaskInstance collection exactly as
  it was, so the instances of the deleted task stay stored with their entries and flags.
  When the deletion succeeds, no task with the id remains, the other tasks are kept, and
  the Subtask collection loses exactly the subtasks that belong to the task.
\<close>

theorem deleteTask_keeps_instances:
  "taskInstances (snd (deleteTask st uid tid)) = taskInstances st
   \<and> (\<forall>msg st'. distinct (map task_id (tasks st)) \<and> deleteTask st uid tid = (Inr msg, st') \<longrightarrow>
         (\<exists>task. findTask st tid uid = Some task)
       \<and> (\<forall>t \<in> set (tasks st'). task_id t \<noteq> tid)
       \<and> tasks st' = filter (\<lambda>t. task_id t \<noteq> tid) (tasks st)
       \<and> subtaskDocs st' = filter (\<lambda>s. sub_taskId s \<noteq> tid) (subtaskDocs st)
       \<and> taskInstances st' = taskInstances st)"
proof (intro conjI allI impI)
  show "taskInstances (snd (deleteTask st uid tid)) = taskInstances st"
    by (simp add: deleteTask_def Let_def split: option.splits)
next
  fix msg st'
  assume a: "distinct (map task_id (tasks st)) \<and> deleteTask st uid tid = (Inr msg, st')"
  then obtain task where task: "findTask st tid uid = Some task"
    by (auto simp: deleteTask_def split: option.splits)
  with a have st': "st' = st\<lparr>subtaskDocs := filter (\<lambda>s. sub_taskId s \<noteq> tid) (subtaskDocs st),
                           tasks := deleteOne (\<lambda>t. task_id t = tid) (tasks st)\<rparr>"
    by (auto simp: deleteTask_def Let_def)
  have del: "deleteOne (\<lambda>t. task_id t = tid) (tasks st) = filter (\<lambda>t. task_id t \<noteq> tid) (tasks st)"
    using a by (intro deleteOne_distinct) simp
  show "\<exists>task. findTask st tid uid = Some task"
    using task by blast
  show "tasks st' = filter (\<lambda>t. task_id t \<noteq> tid) (tasks st)"
    by (simp add: st' del)
  then show "\<forall>t \<in> set (tasks st'). task_id t \<noteq> tid"
    by simp
  show "subtaskDocs st' = filter (\<lambda>s. sub_taskId s \<noteq> tid) (subtaskDocs st)"
    by (simp add: st')
  show "taskInstances st' = taskInstances st"
    by (simp add: st')
qed

theorem deleteTask_keeps_instances_witness:
  "distinct (map task_id (tasks storeDay))
   \<and> fst (deleteTask storeDay 1 20) = Inr ''Task and its subtasks deleted successfully''
   \<and> tasks (snd (deleteTask storeDay 1 20)) = [dayTask 21 2 [32]]
   \<and> subtaskDocs (snd (deleteTask storeDay 1 20)) = [subtaskDoc 32 21]
   \<and> taskInstances (snd (deleteTask storeDay 1 20)) = [staleInstance]"
proof -
  let ?st' = "snd (deleteTask storeDay 1 20)"
  have d: "distinct (map task_id (tasks storeDay))"
    by (simp add: storeDay_def dayTask_def)
  have r: "fst (deleteTask storeDay 1 20) = Inr ''Task and its subtasks deleted successfully''"
    by (simp add: deleteTask_def findTask_def storeDay_def dayTask_def Let_def)
  then have run: "deleteTask storeDay 1 20
      = (Inr ''Task and its subtasks deleted successfully'', ?st')"
    by (metis prod.collapse)
  from deleteTask_keeps_instances[of storeDay 1 20] d run
  have "tasks ?st' = filter (\<lambda>t. task_id t \<noteq> 20) (tasks storeDay)"
    and "subtaskDocs ?st' = filter (\<lambda>s. sub_taskId s \<noteq> 20) (subtaskDocs storeDay)"
    and "taskInstances ?st' = taskInstances storeDay"
    by blast+
  then have "tasks ?st' = [dayTask 21 2 [32]]" "subtaskDocs ?st' = [subtaskDoc 32 21]"
    "taskInstances ?st' = [staleInstance]"
    by (simp_all add: storeDay_def dayTask_def subtaskDoc_def)
  with d r show ?thesis
    by (intro conjI)
qed

subsection \<open>Instance materialisation\<close>

lemma syncSubtaskInstances_eq:
  "syncSubtaskInstances subs sis =
     filter (\<lambda>si. si_subtaskId si \<in> sub_id ` set subs) sis
     @ map newSubtaskInstance (filter (\<lambda>s. sub_id s \<notin> si_subtaskId ` set sis) subs)"
proof -
  have "filter (\<lambda>si. si_subtaskId si \<in> sub_id ` set subs)
          (map newSubtaskInstance (filter (\<lambda>s. sub_id s \<notin> si_subtaskId ` set sis) subs))
        = map newSubtaskInstance (filter (\<lambda>s. sub_id s \<notin> si_subtaskId ` set sis) subs)"
    by (auto simp: filter_id_conv newSubtaskInstance_def)
  then show ?thesis
    by (simp add: syncSubtaskInstances_def Let_def)
qed

lemma reconciled_sync: "reconciled subs sis (syncSubtaskInstances subs sis)"
proof -
  let ?new = "map newSubtaskInstance (filter (\<lambda>s. sub_id s \<notin> si_subtaskId ` set sis) subs)"
  have 1: "list_all (\<lambda>s. sub_id s \<in> set (map si_subtaskId sis)
                    \<or> \<lparr>si_subtaskId = sub_id s, si_completed = False\<rparr>
                         \<in> set (syncSubtaskInstances subs sis)) subs"
    by (auto simp: list_all_iff syncSubtaskInstances_eq newSubtaskInstance_def)
  have 2: "list_all (\<lambda>si. si_subtaskId si \<in> set (map sub_id subs)) (syncSubtaskInstances subs sis)"
    by (auto simp: list_all_iff syncSubtaskInstances_eq newSubtaskInstance_def)
  have "filter (\<lambda>si. si_subtaskId si \<in> si_subtaskId ` set sis) ?new = []"
    by (auto simp: filter_empty_conv newSubtaskInstance_def)
  moreover have "filter (\<lambda>si. si_subtaskId si \<in> si_subtaskId ` set sis)
                   (filter (\<lambda>si. si_subtaskId si \<in> sub_id ` set subs) sis)
                 = filter (\<lambda>si. si_subtaskId si \<in> sub_id ` set subs) sis"
    by (auto intro: filter_cong)
  ultimately have 3: "filter (\<lambda>si. si_subtaskId si \<in> set (map si_subtaskId sis))
                        (syncSubtaskInstances subs sis)
                      = filter (\<lambda>si. si_subtaskId si \<in> set (map sub_id subs)) sis"
    by (simp add: syncSubtaskInstances_eq)
  from 1 2 3 show ?thesis
    unfolding reconciled_def by blast
qed

lemma sync_unchanged:
  assumes "\<not> needsUpdate subs sis"
  shows "syncSubtaskInstances subs sis = sis"
proof -
  let ?missing = "filter (\<lambda>s. sub_id s \<notin> set (map si_subtaskId sis)) subs"
  from assms have m: "?missing = []"
    and len: "length (syncSubtaskInstances subs sis) = length (sis @ map newSubtaskInstance ?missing)"
    by (simp_all add: needsUpdate_def Let_def)
  from m have eq: "syncSubtaskInstances subs sis = filter (\<lambda>si. si_subtaskId si \<in> sub_id ` set subs) sis"
    by (simp add: syncSubtaskInstances_eq)
  with len m have "length (filter (\<lambda>si. si_subtaskId si \<in> sub_id ` set subs) sis) = length sis"
    by simp
  then have "filter (\<lambda>si. si_subtaskId si \<in> sub_id ` set subs) sis = sis"
    by (metis filter_id_conv length_filter_less less_irrefl)
  with eq show ?thesis by simp
qed

lemma find_map_same:
  assumes "\<And>x. x \<in> set xs \<Longrightarrow> (p (g x) \<longleftrightarrow> p x) \<and> (p x \<longrightarrow> g x = x)"
  shows "find p (map g xs) = find p xs"
  using assms by (induction xs) auto

lemma map_ti_id_replace:
  "ti_id new = k \<Longrightarrow> map ti_id (map (\<lambda>j. if ti_id j = k then new else j) xs) = map ti_id xs"
  by (induction xs) auto

lemma findInstanceFor_SomeD:
  "findInstanceFor st a u day = Some inst \<Longrightarrow>
     inst \<in> set (taskInstances st) \<and> ti_taskId inst = a \<and> ti_userId inst = u \<and> ti_date inst = day"
  by (auto simp: findInstanceFor_def find_Some_iff)

lemma findInstanceFor_saveInstance:
  assumes "findInstanceFor st a u day = Some old" and "ti_id new = ti_id old"
    and "ti_taskId new = a" and "ti_userId new = u" and "ti_date new = day"
  shows "findInstanceFor (saveInstance new st) a u day = Some new"
proof -
  have "find (\<lambda>i. ti_taskId i = a \<and> ti_userId i = u \<and> ti_date i = day)
          (map (\<lambda>j. if ti_id j = ti_id new then new else j) (taskInstances st)) = Some new"
    using assms by (intro find_map_replace[where a = old]) (simp_all add: findInstanceFor_def)
  then show ?thesis
    by (simp add: findInstanceFor_def saveInstance_def)
qed

lemma findInstanceFor_saveInstance_other:
  assumes "distinct (map ti_id (taskInstances st))" and "old \<in> set (taskInstances st)"
    and "ti_id new = ti_id old" and "ti_taskId new = ti_taskId old" and "b \<noteq> ti_taskId old"
  shows "findInstanceFor (saveInstance new st) b u dd = findInstanceFor st b u dd"
proof -
  have inj: "x = old" if "x \<in> set (taskInstances st)" "ti_id x = ti_id old" for x
    using that assms(1,2) by (meson distinct_map inj_onD)
  have "find (\<lambda>i. ti_taskId i = b \<and> ti_userId i = u \<and> ti_date i = dd)
          (map (\<lambda>j. if ti_id j = ti_id new then new else j) (taskInstances st))
        = find (\<lambda>i. ti_taskId i = b \<and> ti_userId i = u \<and> ti_date i = dd) (taskInstances st)"
    using assms(3,4,5) inj by (intro find_map_same) auto
  then show ?thesis
    by (simp add: findInstanceFor_def saveInstance_def)
qed

lemma wfInstances_saveInstance:
  assumes "wfInstances st"
  shows "wfInstances (saveInstance new st)"
proof -
  have "map ti_id (taskInstances (saveInstance new st)) = map ti_id (taskInstances st)"
    by (simp add: saveInstance_def map_ti_id_replace)
  moreover have "nextId (saveInstance new st) = nextId st"
    by (simp add: saveInstance_def)
  moreover have "list_all (\<lambda>i. ti_id i < n) xs \<longleftrightarrow> (\<forall>k \<in> set (map ti_id xs). k < n)" for n xs
    by (auto simp: list_all_iff)
  ultimately show ?thesis
    using assms unfolding wfInstances_def by metis
qed

lemma find_append_None:
  "find p xs = None \<Longrightarrow> find p (xs @ [x]) = (if p x then Some x else None)"
  by (induction xs) (auto split: if_splits)

lemma find_append_not: "\<not> p x \<Longrightarrow> find p (xs @ [x]) = find p xs"
  by (induction xs) auto

lemma getOrCreateTaskInstance_step:
  assumes wf: "wfInstances st"
    and t: "find (\<lambda>x. task_id x = task_id t) (tasks st) = Some t"
  shows "\<exists>inst st'. getOrCreateTaskInstance st (task_id t) uid d = (Inr inst, st')
     \<and> tasks st' = tasks st \<and> subtaskDocs st' = subtaskDocs st \<and> wfInstances st'
     \<and> findInstanceFor st' (task_id t) uid (startOfDay d) = Some inst
     \<and> materialisedFrom st t uid (startOfDay d) inst
     \<and> (\<forall>b u dd. b \<noteq> task_id t \<longrightarrow> findInstanceFor st' b u dd = findInstanceFor st b u dd)"
proof (cases "findInstanceFor st (task_id t) uid (startOfDay d)")
  case None
  let ?day = "startOfDay d"
  define new where "new = \<lparr>ti_id = nextId st, ti_taskId = task_id t, ti_userId = uid,
      ti_date = ?day, ti_completed = False,
      subtaskInstances = map newSubtaskInstance (populateSubtasks st t)\<rparr>"
  define st' where "st' = st\<lparr>taskInstances := taskInstances st @ [new], nextId := Suc (nextId st)\<rparr>"
  have run: "getOrCreateTaskInstance st (task_id t) uid d = (Inr new, st')"
    unfolding getOrCreateTaskInstance_def Let_def new_def st'_def
    by (simp only: t None option.case)
  have "tasks st' = tasks st" "subtaskDocs st' = subtaskDocs st"
    by (simp_all add: st'_def)
  moreover have "wfInstances st'"
    using wf by (auto simp: wfInstances_def st'_def new_def list_all_iff)
  moreover have "findInstanceFor st' (task_id t) uid ?day = Some new"
    using None by (simp add: findInstanceFor_def st'_def find_append_None) (simp add: new_def)
  moreover have "materialisedFrom st t uid ?day new"
    using None by (simp add: materialisedFrom_def new_def newSubtaskInstance_def)
  moreover have "findInstanceFor st' b u dd = findInstanceFor st b u dd" if "b \<noteq> task_id t" for b u dd
    using that by (simp add: findInstanceFor_def st'_def find_append_not new_def)
  ultimately show ?thesis
    using run by blast
next
  case (Some old)
  let ?day = "startOfDay d"
  let ?subs = "populateSubtasks st t"
  define inst' where "inst' = old\<lparr>subtaskInstances := syncSubtaskInstances ?subs (subtaskInstances old)\<rparr>"
  define st' where "st' = (if needsUpdate ?subs (subtaskInstances old) then saveInstance inst' st else st)"
  have run: "getOrCreateTaskInstance st (task_id t) uid d = (Inr inst', st')"
    unfolding getOrCreateTaskInstance_def Let_def inst'_def st'_def
    by (simp only: t Some option.case)
  note old = findInstanceFor_SomeD[OF Some]
  have same: "inst' = old" if "\<not> needsUpdate ?subs (subtaskInstances old)"
    using sync_unchanged[OF that] by (simp add: inst'_def)
  have "tasks st' = tasks st" "subtaskDocs st' = subtaskDocs st"
    by (simp_all add: st'_def saveInstance_def)
  moreover have "wfInstances st'"
    using wf by (simp add: st'_def wfInstances_saveInstance)
  moreover have "findInstanceFor st' (task_id t) uid ?day = Some inst'"
  proof (cases "needsUpdate ?subs (subtaskInstances old)")
    case True
    have "findInstanceFor (saveInstance inst' st) (task_id t) uid ?day = Some inst'"
      using old by (intro findInstanceFor_saveInstance[OF Some]) (simp_all add: inst'_def)
    with True show ?thesis by (simp add: st'_def)
  next
    case False
    with Some same show ?thesis by (simp add: st'_def)
  qed
  moreover have "materialisedFrom st t uid ?day inst'"
    using Some old reconciled_sync[of ?subs "subtaskInstances old"]
    by (simp add: materialisedFrom_def inst'_def)
  moreover have "findInstanceFor st' b u dd = findInstanceFor st b u dd" if "b \<noteq> task_id t" for b u dd
  proof (cases "needsUpdate ?subs (subtaskInstances old)")
    case True
    have "findInstanceFor (saveInstance inst' st) b u dd = findInstanceFor st b u dd"
      using wf old that
      by (intro findInstanceFor_saveInstance_other[where old = old])
         (simp_all add: wfInstances_def inst'_def)
    with True show ?thesis by (simp add: st'_def)
  next
    case False
    then show ?thesis by (simp add: st'_def)
  qed
  ultimately show ?thesis
    using run by blast
qed

lemma materialisedFrom_cong:
  assumes "subtaskDocs st1 = subtaskDocs st"
    and "findInstanceFor st1 (task_id t) uid day = findInstanceFor st (task_id t) uid day"
  shows "materialisedFrom st1 t uid day inst \<longleftrightarrow> materialisedFrom st t uid day inst"
proof -
  have "populateSubtasks st1 t = populateSubtasks st t"
    using assms(1) by (simp add: populateSubtasks_def)
  with assms(2) show ?thesis
    by (auto simp: materialisedFrom_def split: option.splits)
qed

lemma instancesLoop_correct:
  assumes "wfInstances st" and "distinct (map task_id ts)"
    and "\<forall>t \<in> set ts. find (\<lambda>x. task_id x = task_id t) (tasks st) = Some t"
  shows "\<exists>new st'. instancesLoop uid d ts acc st = (acc @ new, st')
     \<and> tasks st' = tasks st \<and> subtaskDocs st' = subtaskDocs st \<and> wfInstances st'
     \<and> map ti_taskId new = map task_id ts
     \<and> (\<forall>t \<in> set ts. \<exists>inst \<in> set new.
           findInstanceFor st' (task_id t) uid (startOfDay d) = Some inst
           \<and> materialisedFrom st t uid (startOfDay d) inst)
     \<and> (\<forall>b u dd. b \<notin> task_id ` set ts \<longrightarrow> findInstanceFor st' b u dd = findInstanceFor st b u dd)"
  using assms
proof (induction ts arbitrary: acc st)
  case Nil
  then show ?case by simp
next
  case (Cons t ts)
  let ?day = "startOfDay d"
  from Cons.prems(3) have ft: "find (\<lambda>x. task_id x = task_id t) (tasks st) = Some t"
    by simp
  from getOrCreateTaskInstance_step[OF Cons.prems(1) ft, of uid d]
  obtain inst st1 where
    run: "getOrCreateTaskInstance st (task_id t) uid d = (Inr inst, st1)"
    and keep: "tasks st1 = tasks st" "subtaskDocs st1 = subtaskDocs st"
    and wf1: "wfInstances st1"
    and here: "findInstanceFor st1 (task_id t) uid ?day = Some inst"
    and mat: "materialisedFrom st t uid ?day inst"
    and other: "\<And>b u dd. b \<noteq> task_id t \<Longrightarrow> findInstanceFor st1 b u dd = findInstanceFor st b u dd"
    by blast
  have dts: "distinct (map task_id ts)" and notin: "task_id t \<notin> task_id ` set ts"
    using Cons.prems(2) by simp_all
  have fts: "\<forall>u \<in> set ts. find (\<lambda>x. task_id x = task_id u) (tasks st1) = Some u"
    using Cons.prems(3) keep by simp
  from Cons.IH[OF wf1 dts fts, of "acc @ [inst]"]
  obtain new st' where
    loop: "instancesLoop uid d ts (acc @ [inst]) st1 = ((acc @ [inst]) @ new, st')"
    and keep': "tasks st' = tasks st1" "subtaskDocs st' = subtaskDocs st1"
    and wf': "wfInstances st'"
    and ids: "map ti_taskId new = map task_id ts"
    and each: "\<And>u. u \<in> set ts \<Longrightarrow> \<exists>i \<in> set new.
           findInstanceFor st' (task_id u) uid ?day = Some i \<and> materialisedFrom st1 u uid ?day i"
    and other': "\<And>b u dd. b \<notin> task_id ` set ts \<Longrightarrow> findInstanceFor st' b u dd = findInstanceFor st1 b u dd"
    by blast
  have res: "instancesLoop uid d (t # ts) acc st = (acc @ (inst # new), st')"
    using run loop by simp
  have tid: "ti_taskId inst = task_id t"
    using mat by (simp add: materialisedFrom_def)
  have head: "findInstanceFor st' (task_id t) uid ?day = Some inst"
    using other'[OF notin] here by simp
  have tail: "\<exists>i \<in> set (inst # new).
           findInstanceFor st' (task_id u) uid ?day = Some i \<and> materialisedFrom st u uid ?day i"
    if "u \<in> set ts" for u
  proof -
    from each[OF that] obtain i where i: "i \<in> set new"
      "findInstanceFor st' (task_id u) uid ?day = Some i" "materialisedFrom st1 u uid ?day i"
      by blast
    from that notin have "task_id u \<noteq> task_id t"
      by (metis imageI)
    then have "findInstanceFor st1 (task_id u) uid ?day = findInstanceFor st (task_id u) uid ?day"
      by (rule other)
    from materialisedFrom_cong[OF keep(2) this] i(3) have "materialisedFrom st u uid ?day i"
      by blast
    with i(1,2) show ?thesis
      by (intro bexI[of _ i]) simp_all
  qed
  have all: "\<forall>u \<in> set (t # ts). \<exists>i \<in> set (inst # new).
           findInstanceFor st' (task_id u) uid ?day = Some i \<and> materialisedFrom st u uid ?day i"
  proof
    fix u
    assume "u \<in> set (t # ts)"
    then consider "u = t" | "u \<in> set ts" by auto
    then show "\<exists>i \<in> set (inst # new).
           findInstanceFor st' (task_id u) uid ?day = Some i \<and> materialisedFrom st u uid ?day i"
    proof cases
      case 1
      with head mat show ?thesis
        by (intro bexI[of _ inst]) simp_all
    next
      case 2
      then show ?thesis by (rule tail)
    qed
  qed
  have rest: "\<forall>b u dd. b \<notin> task_id ` set (t # ts) \<longrightarrow>
                findInstanceFor st' b u dd = findInstanceFor st b u dd"
  proof (intro allI impI)
    fix b u dd
    assume "b \<notin> task_id ` set (t # ts)"
    then have "b \<noteq> task_id t" "b \<notin> task_id ` set ts"
      by simp_all
    then show "findInstanceFor st' b u dd = findInstanceFor st b u dd"
      using other[of b u dd] other'[of b u dd] by simp
  qed
  have ids': "map ti_taskId (inst # new) = map task_id (t # ts)"
    using ids tid by simp
  have k: "tasks st' = tasks st" "subtaskDocs st' = subtaskDocs st"
    using keep keep' by simp_all
  from res k wf' ids' all rest show ?case
    by blast
qed

lemma findTasksForDate_sort_filter:
  "\<exists>P. findTasksForDate st uid d =
         sort_key (\<lambda>t. (task_order t, - createdAt t)) (filter P (tasks st))"
  unfolding findTasksForDate_def sortBy_byOrderNewestFirst by blast

text \<open>
  C3.  A read of the task instances of a day answers with one instance for each task that is
  active on the day, and leaves that instance in the store.  When the store held no instance
  for the task, the user and the day, the instance is new, not completed, with a
  non-completed entry for every current subtask of the task.  When it held one, the instance
  is that one reconciled: it has a non-completed entry for every subtask that it did not
  know, no entry of a subtask that is gone, and its entries of the subtasks that are still
  there as they were, with their completed flags.  The Task and Subtask collections are not
  changed.
\<close>

theorem getTaskInstancesForDate_materialises:
  assumes "wfInstances st" and "distinct (map task_id (tasks st))"
  shows "\<exists>found st'. getTaskInstancesForDate st uid (Some d) = (Inr found, st')
     \<and> tasks st' = tasks st \<and> subtaskDocs st' = subtaskDocs st
     \<and> map ti_taskId found = map task_id (findTasksForDate st uid d)
     \<and> (\<forall>t \<in> set (findTasksForDate st uid d). \<exists>inst \<in> set found.
           findInstanceFor st' (task_id t) uid (startOfDay d) = Some inst
           \<and> materialisedFrom st t uid (startOfDay d) inst)"
proof -
  let ?ts = "findTasksForDate st uid d"
  obtain P where ts: "?ts = sort_key (\<lambda>t. (task_order t, - createdAt t)) (filter P (tasks st))"
    using findTasksForDate_sort_filter by blast
  have sub: "set ?ts \<subseteq> set (tasks st)"
    unfolding ts by simp
  have dts: "distinct (map task_id ?ts)"
    unfolding ts using assms(2) by (simp add: distinct_map_sort_key distinct_map_filter)
  have fts: "\<forall>t \<in> set ?ts. find (\<lambda>x. task_id x = task_id t) (tasks st) = Some t"
    using sub find_id_member[OF assms(2)] by blast
  from instancesLoop_correct[OF assms(1) dts fts, of uid d "[]"]
  obtain new st' where
    loop: "instancesLoop uid d ?ts [] st = ([] @ new, st')"
    and keep: "tasks st' = tasks st" "subtaskDocs st' = subtaskDocs st"
    and ids: "map ti_taskId new = map task_id ?ts"
    and each: "\<forall>t \<in> set ?ts. \<exists>inst \<in> set new.
           findInstanceFor st' (task_id t) uid (startOfDay d) = Some inst
           \<and> materialisedFrom st t uid (startOfDay d) inst"
    by blast
  have "getTaskInstancesForDate st uid (Some d) = (Inr new, st')"
    using loop by (simp add: getTaskInstancesForDate_def Let_def)
  with keep ids each show ?thesis
    by blast
qed

theorem getTaskInstancesForDate_materialises_witness:
  "wfInstances storeDay \<and> distinct (map task_id (tasks storeDay))
   \<and> map task_id (findTasksForDate storeDay 1 0) = [20, 21]
   \<and> findInstanceFor storeDay 20 1 (startOfDay 0) = Some staleInstance
   \<and> findInstanceFor storeDay 21 1 (startOfDay 0) = None
   \<and> map subtaskInstances (projr (fst (getTaskInstancesForDate storeDay 1 (Some 0))))
        = [[\<lparr>si_subtaskId = 30, si_completed = True\<rparr>, \<lparr>si_subtaskId = 31, si_completed = False\<rparr>],
           [\<lparr>si_subtaskId = 32, si_completed = False\<rparr>]]
   \<and> (\<exists>found st'. getTaskInstancesForDate storeDay 1 (Some 0) = (Inr found, st')
        \<and> tasks st' = tasks storeDay \<and> subtaskDocs st' = subtaskDocs storeDay
        \<and> map ti_taskId found = map task_id (findTasksForDate storeDay 1 0)
        \<and> (\<forall>t \<in> set (findTasksForDate storeDay 1 0). \<exists>inst \<in> set found.
              findInstanceFor st' (task_id t) 1 (startOfDay 0) = Some inst
              \<and> materialisedFrom storeDay t 1 (startOfDay 0) inst))"
proof -
  have wf: "wfInstances storeDay"
    by (simp add: wfInstances_def storeDay_def staleInstance_def)
  have d: "distinct (map task_id (tasks storeDay))"
    by (simp add: storeDay_def dayTask_def)
  have a: "map task_id (findTasksForDate storeDay 1 0) = [20, 21]"
    by code_simp
  have o: "findInstanceFor storeDay 20 1 (startOfDay 0) = Some staleInstance"
    by code_simp
  have n: "findInstanceFor storeDay 21 1 (startOfDay 0) = None"
    by code_simp
  have e: "map subtaskInstances (projr (fst (getTaskInstancesForDate storeDay 1 (Some 0))))
        = [[\<lparr>si_subtaskId = 30, si_completed = True\<rparr>, \<lparr>si_subtaskId = 31, si_completed = False\<rparr>],
           [\<lparr>si_subtaskId = 32, si_completed = False\<rparr>]]"
    by code_simp
  from wf d a o n e getTaskInstancesForDate_materialises[OF wf d, of 1 0] show ?thesis
    by (intro conjI)
qed

subsection \<open>The dates of a task\<close>

lemma createTaskFor_accepted:
  assumes "createTaskFor st userId creator b now = (Inr t, st')"
  shows "(startDate t = None \<longleftrightarrow> endDate t = None)
       \<and> endDateValidator (startDate t) (endDate t)
       \<and> startDate t = dateOf (body_startDate b) \<and> endDate t = dateOf (body_endDate b)
       \<and> tasks st' = tasks st @ [t]"
proof (cases "dateOf (body_startDate b)")
  case None
  note s = None
  show ?thesis
  proof (cases "dateOf (body_endDate b)")
    case None
    with s assms show ?thesis
      by (auto simp: createTaskFor_def Let_def endDateValidator_def)
  next
    case (Some e)
    with s assms show ?thesis
      by (simp add: createTaskFor_def Let_def)
  qed
next
  case (Some s)
  note s = Some
  show ?thesis
  proof (cases "dateOf (body_endDate b)")
    case None
    with s assms show ?thesis
      by (simp add: createTaskFor_def Let_def)
  next
    case (Some e)
    with s assms show ?thesis
      by (auto simp: createTaskFor_def Let_def split: if_splits)
  qed
qed

lemma createTaskFor_rejected:
  assumes "dateOf (body_startDate b) = None \<longleftrightarrow> dateOf (body_endDate b) \<noteq> None"
  shows "createTaskFor st userId creator b now =
           (Inl (HttpError 400 ''Both start date and end date must be provided together, or leave both empty for static tasks''), st)"
  using assms by (auto simp: createTaskFor_def Let_def split: option.splits)

lemma createTaskFor_rejected_range:
  assumes "dateOf (body_startDate b) = Some s" and "dateOf (body_endDate b) = Some e" and "e < s"
  shows "\<exists>err. createTaskFor st userId creator b now = (Inl err, st)"
  using assms by (simp add: createTaskFor_def Let_def endDateValidator_def)

lemma createTaskFor_same_day:
  assumes "dateOf (body_startDate b) = Some s" and "dateOf (body_endDate b) = Some e"
    and "e < s" and "startOfDay e = startOfDay s"
  shows "createTaskFor st userId creator b now =
           (Inl (HttpError 500 ''Server error while creating task''), st)"
  using assms by (simp add: createTaskFor_def Let_def endDateValidator_def)

lemma createTask_invariant:
  assumes "createTask st uid b now = (Inr t, st')"
  shows "(startDate t = None \<longleftrightarrow> endDate t = None)
       \<and> endDateValidator (startDate t) (endDate t) \<and> tasks st' = tasks st @ [t]"
proof -
  from assms have "createTaskFor st uid None b now = (Inr t, st')"
    by (simp add: createTask_def split: if_splits)
  from createTaskFor_accepted[OF this] show ?thesis
    by blast
qed

lemma adminCreateTask_invariant:
  assumes "adminCreateTask st admin userId b now = (Inr t, st')"
  shows "(startDate t = None \<longleftrightarrow> endDate t = None)
       \<and> endDateValidator (startDate t) (endDate t) \<and> tasks st' = tasks st @ [t]"
proof -
  from assms have "createTaskFor st userId (Some (user_id admin)) b now = (Inr t, st')"
    by (simp add: adminCreateTask_def split: if_splits option.splits)
  from createTaskFor_accepted[OF this] show ?thesis
    by blast
qed

text \<open>
  C7.  The create handlers keep the rule of the date pair, as the lemmas above say.  The
  update handler does not: for a task that has no dates, a request whose body has a start
  date and no end date is accepted, and the task is stored with a start date and no end
  date.
\<close>

theorem updateTask_accepts_single_date:
  assumes "findTask st tid uid = Some task"
    and "startDate task = None" and "endDate task = None"
  shows "updateTask st uid tid
           \<lparr>upd_title = None, upd_completed = None, upd_startDate = Valid d, upd_endDate = Absent\<rparr>
         = (Inr (task\<lparr>startDate := Some d\<rparr>), saveTask (task\<lparr>startDate := Some d\<rparr>) st)
       \<and> startDate (task\<lparr>startDate := Some d\<rparr>) \<noteq> None
       \<and> endDate (task\<lparr>startDate := Some d\<rparr>) = None"
proof -
  let ?u = "\<lparr>upd_title = None, upd_completed = None, upd_startDate = Valid d, upd_endDate = Absent\<rparr>"
  have run: "updateTask st uid tid ?u
      = (Inr (task\<lparr>startDate := Some d\<rparr>), saveTask (task\<lparr>startDate := Some d\<rparr>) st)"
    using assms
    by (cases task)
      (simp add: updateTask_def updateTaskBody_def noExtras_def taskValid_def
        endDateValidator_def validTaskUpdates_def Let_def)
  show ?thesis
    unfolding run using assms(3) by simp
qed

theorem updateTask_accepts_single_date_witness:
  "findTask storeOne 10 1 = Some (staticTask 10 1 100)
   \<and> startDate (staticTask 10 1 100) = None \<and> endDate (staticTask 10 1 100) = None
   \<and> fst (updateTask storeOne 1 10
        \<lparr>upd_title = None, upd_completed = None, upd_startDate = Valid 86400000, upd_endDate = Absent\<rparr>)
      = Inr ((staticTask 10 1 100)\<lparr>startDate := Some 86400000\<rparr>)
   \<and> map (\<lambda>t. (task_id t, startDate t, endDate t))
        (tasks (snd (updateTask storeOne 1 10
           \<lparr>upd_title = None, upd_completed = None, upd_startDate = Valid 86400000, upd_endDate = Absent\<rparr>)))
      = [(10, Some 86400000, None)]"
proof -
  have f: "findTask storeOne 10 1 = Some (staticTask 10 1 100)"
    by (simp add: findTask_def storeOne_def taskStore_def staticTask_def)
  have s: "startDate (staticTask 10 1 100) = None" and e: "endDate (staticTask 10 1 100) = None"
    by (simp_all add: staticTask_def)
  from updateTask_accepts_single_date[OF f s e, of 86400000]
  have run: "updateTask storeOne 1 10
        \<lparr>upd_title = None, upd_completed = None, upd_startDate = Valid 86400000, upd_endDate = Absent\<rparr>
      = (Inr ((staticTask 10 1 100)\<lparr>startDate := Some 86400000\<rparr>),
         saveTask ((staticTask 10 1 100)\<lparr>startDate := Some 86400000\<rparr>) storeOne)"
    by blast
  have "map (\<lambda>t. (task_id t, startDate t, endDate t))
          (tasks (saveTask ((staticTask 10 1 100)\<lparr>startDate := Some 86400000\<rparr>) storeOne))
        = [(10, Some 86400000, None)]"
    by (simp add: saveTask_def storeOne_def taskStore_def staticTask_def)
  with f s e run show ?thesis
    by simp
qed

subsection \<open>Reset codes\<close>

lemma generateUnique_Some:
  "generateUnique codes draws = Some code \<Longrightarrow>
     (\<exists>r \<in> set draws. code = generateResetCode r)
     \<and> (\<forall>c \<in> set codes. \<not> rc_isUsed c \<longrightarrow> rc_code c \<noteq> code)"
proof (induction draws)
  case Nil
  then show ?case by simp
next
  case (Cons r rs)
  show ?case
  proof (cases "find (\<lambda>c. rc_code c = generateResetCode r \<and> \<not> rc_isUsed c) codes = None")
    case True
    with Cons.prems have "code = generateResetCode r"
      by (simp add: Let_def)
    with True show ?thesis
      by (auto simp: find_None_iff)
  next
    case False
    with Cons.prems have "generateUnique codes rs = Some code"
      by (simp add: Let_def)
    from Cons.IH[OF this] show ?thesis
      by auto
  qed
qed

lemma generateUnique_returns:
  assumes "r \<in> set draws"
    and "\<forall>c \<in> set codes. \<not> rc_isUsed c \<longrightarrow> rc_code c \<noteq> generateResetCode r"
  shows "\<exists>code. generateUnique codes draws = Some code"
  using assms
proof (induction draws)
  case Nil
  then show ?case by simp
next
  case (Cons d ds)
  show ?case
  proof (cases "find (\<lambda>c. rc_code c = generateResetCode d \<and> \<not> rc_isUsed c) codes = None")
    case True
    then show ?thesis by (simp add: Let_def)
  next
    case False
    with Cons.prems have "r \<in> set ds"
      by (auto simp: find_None_iff)
    from Cons.IH[OF this Cons.prems(2)] False show ?thesis
      by (simp add: Let_def)
  qed
qed

lemma unusedCodes_retire_same: "unusedCodes email (retireCodes email now codes) = []"
  by (induction codes) (auto simp: unusedCodes_def retireCodes_def)

lemma unusedCodes_retire_other:
  "e \<noteq> email \<Longrightarrow> unusedCodes e (retireCodes email now codes) = unusedCodes e codes"
  by (induction codes) (auto simp: unusedCodes_def retireCodes_def)

lemma liveCodes_le_unused: "length (liveCodes e t codes) \<le> length (unusedCodes e codes)"
proof -
  have "liveCodes e t codes = filter (\<lambda>c. t < expiresAt c) (unusedCodes e codes)"
    by (auto simp: liveCodes_def unusedCodes_def intro: filter_cong)
  then show ?thesis by simp
qed

lemma retireCodes_nth:
  assumes "i < length codes"
  shows "rc_id (retireCodes email now codes ! i) = rc_id (codes ! i)
       \<and> rc_code (retireCodes email now codes ! i) = rc_code (codes ! i)
       \<and> rc_email (retireCodes email now codes ! i) = rc_email (codes ! i)
       \<and> (rc_isUsed (retireCodes email now codes ! i)
            \<longleftrightarrow> rc_isUsed (codes ! i) \<or> rc_email (codes ! i) = email)"
  using assms by (auto simp: retireCodes_def)

lemma issueResetCode_Some:
  assumes "issueResetCode isEmail st admin email draws now = Some (Inr rc, st')"
  shows "\<exists>code. generateUnique (retireCodes email now (resetCodes st)) draws = Some code
       \<and> find (\<lambda>c. rc_code c = code) (retireCodes email now (resetCodes st)) = None
       \<and> rc = \<lparr>rc_id = nextId st, rc_code = code, rc_email = emailSetter email,
                generatedBy = user_id admin, rc_isUsed = False, usedAt = None,
                expiresAt = now + 24 * 60 * 60 * 1000\<rparr>
       \<and> resetCodes st' = retireCodes email now (resetCodes st) @ [rc]"
  using assms
  by (auto simp: issueResetCode_def Let_def split: if_splits option.splits)

text \<open>Whatever the answer of the handler, an email has afterwards no more unused codes than
  before, or one.\<close>

lemma issueResetCode_unused:
  assumes "issueResetCode isEmail st admin email draws now = Some (res, st')"
    and "emailSetter email = email"
  shows "length (unusedCodes e (resetCodes st')) \<le> max 1 (length (unusedCodes e (resetCodes st)))"
proof -
  let ?old = "retireCodes email now (resetCodes st)"
  have old: "length (unusedCodes e ?old) \<le> length (unusedCodes e (resetCodes st))"
    by (cases "e = email") (simp_all add: unusedCodes_retire_same unusedCodes_retire_other)
  from assms(1) consider "resetCodes st' = resetCodes st" | "resetCodes st' = ?old"
    | rc where "resetCodes st' = ?old @ [rc]" "rc_email rc = email"
    by (auto simp: issueResetCode_def Let_def assms(2) split: if_splits option.splits)
  then show ?thesis
  proof cases
    case 1
    then show ?thesis by simp
  next
    case 2
    with old show ?thesis by simp
  next
    case 3
    show ?thesis
    proof (cases "e = email")
      case True
      then show ?thesis
        using 3 unusedCodes_retire_same[of email now "resetCodes st"]
        by (simp add: unusedCodes_def)
    next
      case False
      then show ?thesis
        using 3 old by (simp add: unusedCodes_def)
    qed
  qed
qed

text \<open>A draw that is the code of a document which is used, here the code that the request
  itself has just retired, ends the loop and is then refused by the unique index: the
  handler answers with status 500, and the old code of the email stays retired.\<close>

lemma issueResetCode_duplicate_code:
  "issueResetCode hasAt storeAuth adminUser ''x@y.com'' [23456] 5
     = Some (Inl (HttpError 500 ''Server error while generating reset code''),
             storeAuth\<lparr>resetCodes := retireCodes ''x@y.com'' 5 (resetCodes storeAuth)\<rparr>)
   \<and> unusedCodes ''x@y.com'' (retireCodes ''x@y.com'' 5 (resetCodes storeAuth)) = []"
  by (simp add: issueResetCode_def hasAt_def storeAuth_def adminUser_def retireCodes_def
      generateResetCode_def digitChar_def unusedCodes_def Let_def)

text \<open>
  C8.  When a reset code is issued for an email, which the validation chain of the
  request has trimmed and lowercased, so that the setters of the schema leave it as it is,
  the stored codes are the old ones followed by the new one; an old code keeps its id, code
  and email, and is used afterwards exactly when it was used before or belongs to the
  email; the new code is unused, belongs to the email, and its code differs from the code of
  every old document, used or not.  So the new code is the only unused code of the email,
  the unused codes of the other emails are as before, and if no email had more than one
  unused code before, then afterwards no email has more than one unused code that has not
  expired, at any time.
\<close>

theorem issueResetCode_retires_and_is_unique:
  assumes "issueResetCode isEmail st admin email draws now = Some (Inr rc, st')"
    and "emailSetter email = email"
  shows "length (resetCodes st') = Suc (length (resetCodes st))
       \<and> last (resetCodes st') = rc
       \<and> (\<forall>i < length (resetCodes st).
             rc_id (resetCodes st' ! i) = rc_id (resetCodes st ! i)
           \<and> rc_code (resetCodes st' ! i) = rc_code (resetCodes st ! i)
           \<and> rc_email (resetCodes st' ! i) = rc_email (resetCodes st ! i)
           \<and> (rc_isUsed (resetCodes st' ! i)
                \<longleftrightarrow> rc_isUsed (resetCodes st ! i) \<or> rc_email (resetCodes st ! i) = email)
           \<and> rc_code (resetCodes st' ! i) \<noteq> rc_code rc)
       \<and> rc_email rc = email \<and> \<not> rc_isUsed rc
       \<and> unusedCodes email (resetCodes st') = [rc]
       \<and> (\<forall>e. e \<noteq> email \<longrightarrow> unusedCodes e (resetCodes st') = unusedCodes e (resetCodes st))
       \<and> ((\<forall>e. length (unusedCodes e (resetCodes st)) \<le> 1) \<longrightarrow>
            (\<forall>e t. length (liveCodes e t (resetCodes st')) \<le> 1))"
proof -
  let ?old = "retireCodes email now (resetCodes st)"
  from issueResetCode_Some[OF assms(1)] obtain code where
    none: "find (\<lambda>c. rc_code c = code) ?old = None"
    and rc: "rc = \<lparr>rc_id = nextId st, rc_code = code, rc_email = email,
                generatedBy = user_id admin, rc_isUsed = False, usedAt = None,
                expiresAt = now + 24 * 60 * 60 * 1000\<rparr>"
    and st': "resetCodes st' = ?old @ [rc]"
    unfolding assms(2) by blast
  have len: "length ?old = length (resetCodes st)"
    by (simp add: retireCodes_def)
  have fresh: "\<forall>c \<in> set ?old. rc_code c \<noteq> rc_code rc"
    using none by (simp add: rc find_None_iff)
  have rcp: "rc_email rc = email" "\<not> rc_isUsed rc"
    by (simp_all add: rc)
  have 1: "length (resetCodes st') = Suc (length (resetCodes st))" "last (resetCodes st') = rc"
    by (simp_all add: st' len)
  have 2: "\<forall>i < length (resetCodes st).
             rc_id (resetCodes st' ! i) = rc_id (resetCodes st ! i)
           \<and> rc_code (resetCodes st' ! i) = rc_code (resetCodes st ! i)
           \<and> rc_email (resetCodes st' ! i) = rc_email (resetCodes st ! i)
           \<and> (rc_isUsed (resetCodes st' ! i)
                \<longleftrightarrow> rc_isUsed (resetCodes st ! i) \<or> rc_email (resetCodes st ! i) = email)
           \<and> rc_code (resetCodes st' ! i) \<noteq> rc_code rc"
  proof (intro allI impI)
    fix i
    assume i: "i < length (resetCodes st)"
    then have nth: "resetCodes st' ! i = ?old ! i"
      by (simp add: st' nth_append len)
    have "?old ! i \<in> set ?old"
      using i len by simp
    with fresh have "rc_code (?old ! i) \<noteq> rc_code rc"
      by blast
    with retireCodes_nth[OF i, of email now] show
      "rc_id (resetCodes st' ! i) = rc_id (resetCodes st ! i)
       \<and> rc_code (resetCodes st' ! i) = rc_code (resetCodes st ! i)
       \<and> rc_email (resetCodes st' ! i) = rc_email (resetCodes st ! i)
       \<and> (rc_isUsed (resetCodes st' ! i)
            \<longleftrightarrow> rc_isUsed (resetCodes st ! i) \<or> rc_email (resetCodes st ! i) = email)
       \<and> rc_code (resetCodes st' ! i) \<noteq> rc_code rc"
      unfolding nth by blast
  qed
  have 3: "unusedCodes email (resetCodes st') = [rc]"
    using unusedCodes_retire_same[of email now "resetCodes st"] rcp
    by (simp add: st' unusedCodes_def)
  have 4: "unusedCodes e (resetCodes st') = unusedCodes e (resetCodes st)" if "e \<noteq> email" for e
    using unusedCodes_retire_other[OF that, of now "resetCodes st"] that rcp
    by (simp add: st' unusedCodes_def)
  have 5: "\<forall>e t. length (liveCodes e t (resetCodes st')) \<le> 1"
    if inv: "\<forall>e. length (unusedCodes e (resetCodes st)) \<le> 1"
  proof (intro allI)
    fix e t
    have "length (unusedCodes e (resetCodes st')) \<le> 1"
    proof (cases "e = email")
      case True
      with 3 show ?thesis by simp
    next
      case False
      with 4 inv show ?thesis by simp
    qed
    with liveCodes_le_unused[of e t "resetCodes st'"] show "length (liveCodes e t (resetCodes st')) \<le> 1"
      by linarith
  qed
  from 1 2 rcp 3 4 5 show ?thesis
    by blast
qed

theorem issueResetCode_retires_and_is_unique_witness:
  "emailSetter ''x@y.com'' = ''x@y.com''
   \<and> map_option fst (issueResetCode hasAt storeAuth adminUser ''x@y.com'' [7, 8] 5)
     = Some (Inr issuedCode)
   \<and> map (\<lambda>c. (rc_id c, rc_code c, rc_isUsed c))
         (resetCodes (snd (the (issueResetCode hasAt storeAuth adminUser ''x@y.com'' [7, 8] 5))))
       = [(60, ''123456'', True), (61, ''100007'', False), (70, ''100008'', False)]
   \<and> unusedCodes ''x@y.com''
         (resetCodes (snd (the (issueResetCode hasAt storeAuth adminUser ''x@y.com'' [7, 8] 5))))
       = [issuedCode]
   \<and> length (liveCodes ''z@y.com'' 10
         (resetCodes (snd (the (issueResetCode hasAt storeAuth adminUser ''x@y.com'' [7, 8] 5)))))
       \<le> 1"
proof -
  let ?r = "issueResetCode hasAt storeAuth adminUser ''x@y.com'' [7, 8] 5"
  have low: "emailSetter ''x@y.com'' = ''x@y.com''"
    by (simp add: emailSetter_def trim_def toLowerCase_def isSpace_def)
  have a: "map_option fst ?r = Some (Inr issuedCode)"
    by (simp add: issueResetCode_def hasAt_def storeAuth_def adminUser_def retireCodes_def
        generateResetCode_def digitChar_def Let_def issuedCode_def low)
  then have run: "?r = Some (Inr issuedCode, snd (the ?r))"
    by (cases ?r) auto
  have b: "map (\<lambda>c. (rc_id c, rc_code c, rc_isUsed c)) (resetCodes (snd (the ?r)))
       = [(60, ''123456'', True), (61, ''100007'', False), (70, ''100008'', False)]"
    by (simp add: issueResetCode_def hasAt_def storeAuth_def adminUser_def retireCodes_def
        generateResetCode_def digitChar_def Let_def)
  have inv: "\<forall>e. length (unusedCodes e (resetCodes storeAuth)) \<le> 1"
    by (simp add: unusedCodes_def storeAuth_def)
  note main = issueResetCode_retires_and_is_unique[OF run low]
  from main have c: "unusedCodes ''x@y.com'' (resetCodes (snd (the ?r))) = [issuedCode]"
    by blast
  from main inv have d: "length (liveCodes ''z@y.com'' 10 (resetCodes (snd (the ?r)))) \<le> 1"
    by blast
  from low a b c d show ?thesis
    by (intro conjI)
qed

text \<open>The other two handlers that write the ResetCode collection only mark a code used or
  delete one, so they do not add to the unused codes of any email.\<close>

lemma length_filter_map_le:
  assumes "\<And>x. x \<in> set xs \<Longrightarrow> P (g x) \<Longrightarrow> P x"
  shows "length (filter P (map g xs)) \<le> length (filter P xs)"
  using assms by (induction xs) auto

lemma length_filter_deleteOne_le:
  "length (filter P (deleteOne q xs)) \<le> length (filter P xs)"
  by (induction xs) auto

lemma resetPassword_unused:
  "length (unusedCodes e (resetCodes (snd (resetPassword isEmail hashPassword st b now))))
     \<le> length (unusedCodes e (resetCodes st))"
proof -
  have "length (unusedCodes e (map (\<lambda>c. if rc_id c = k then r\<lparr>rc_isUsed := True, usedAt := Some now\<rparr> else c) cs))
          \<le> length (unusedCodes e cs)" for k r cs
    unfolding unusedCodes_def by (rule length_filter_map_le) (simp split: if_splits)
  then show ?thesis
    by (simp add: resetPassword_def Let_def split: option.splits)
qed

lemma deleteResetCode_unused:
  "length (unusedCodes e (resetCodes (snd (deleteResetCode st admin rid))))
     \<le> length (unusedCodes e (resetCodes st))"
  by (simp add: deleteResetCode_def unusedCodes_def length_filter_deleteOne_le split: option.splits)

subsection \<open>Registration\<close>

lemma registerUser_created:
  assumes "registerUser isEmail hashPassword st b = (Inr u, st')"
  shows "validRegistration isEmail b
       \<and> find (\<lambda>u. user_email u = reg_email b) (users st) = None
       \<and> (reg_email b = bootstrapEmail
            \<or> (\<exists>w. find (\<lambda>w. wl_email w = reg_email b) (whitelist st) = Some w \<and> \<not> isUsed w))
       \<and> users st' = users st @ [u] \<and> user_email u = reg_email b"
  using assms
  by (auto simp: registerUser_def Let_def split: if_splits option.splits)

text \<open>
  C9 (as amended).  A registration request whose email is not the bootstrap email and has no
  whitelist entry, or has one that is already used, fails, and the store is as it was, so no
  user is created.  When the request passes the validation of its fields and the email is
  not registered yet, the failure is the authorization failure (403) for an email without
  an entry, and the "already used" failure (400) for an email with a used entry.
\<close>

theorem registerUser_not_whitelisted:
  assumes "reg_email b \<noteq> bootstrapEmail"
    and "case find (\<lambda>w. wl_email w = reg_email b) (whitelist st) of
           None \<Rightarrow> True | Some w \<Rightarrow> isUsed w"
  shows "(\<exists>e. registerUser isEmail hashPassword st b = (Inl e, st))
       \<and> (validRegistration isEmail b
            \<and> find (\<lambda>u. user_email u = reg_email b) (users st) = None \<longrightarrow>
          registerUser isEmail hashPassword st b =
            (Inl (if find (\<lambda>w. wl_email w = reg_email b) (whitelist st) = None
                  then HttpError 403
                    ''Email not authorized. Please contact admin to whitelist your email address.''
                  else HttpError 400 ''This email has already been used for registration''),
             st))"
  using assms
  by (auto simp: registerUser_def Let_def split: option.splits)

theorem registerUser_not_whitelisted_witness:
  "''n@y.com'' \<noteq> bootstrapEmail
   \<and> find (\<lambda>w. wl_email w = ''n@y.com'') (whitelist storeAuth) = None
   \<and> registerUser hasAt hashed storeAuth
        \<lparr>reg_name = ''n'', reg_email = ''n@y.com'', reg_password = ''secret''\<rparr>
      = (Inl (HttpError 403
           ''Email not authorized. Please contact admin to whitelist your email address.''),
         storeAuth)
   \<and> find (\<lambda>w. wl_email w = ''w@y.com'')
         (whitelist (storeAuth\<lparr>whitelist :=
            [\<lparr>wl_id = 4, wl_email = ''w@y.com'', addedBy = 1, isUsed = True, usedBy = Some 9\<rparr>]\<rparr>))
      \<noteq> None
   \<and> registerUser hasAt hashed
        (storeAuth\<lparr>whitelist :=
            [\<lparr>wl_id = 4, wl_email = ''w@y.com'', addedBy = 1, isUsed = True, usedBy = Some 9\<rparr>]\<rparr>)
        \<lparr>reg_name = ''w'', reg_email = ''w@y.com'', reg_password = ''secret''\<rparr>
      = (Inl (HttpError 400 ''This email has already been used for registration''),
         storeAuth\<lparr>whitelist :=
            [\<lparr>wl_id = 4, wl_email = ''w@y.com'', addedBy = 1, isUsed = True, usedBy = Some 9\<rparr>]\<rparr>)"
proof -
  let ?b = "\<lparr>reg_name = ''n'', reg_email = ''n@y.com'', reg_password = ''secret''\<rparr>"
  let ?st2 = "storeAuth\<lparr>whitelist :=
            [\<lparr>wl_id = 4, wl_email = ''w@y.com'', addedBy = 1, isUsed = True, usedBy = Some 9\<rparr>]\<rparr>"
  let ?b2 = "\<lparr>reg_name = ''w'', reg_email = ''w@y.com'', reg_password = ''secret''\<rparr>"
  have e: "reg_email ?b \<noteq> bootstrapEmail" and e2: "reg_email ?b2 \<noteq> bootstrapEmail"
    by (simp_all add: bootstrapEmail_def)
  have w: "find (\<lambda>w. wl_email w = reg_email ?b) (whitelist storeAuth) = None"
    by (simp add: storeAuth_def)
  have w2: "find (\<lambda>w. wl_email w = reg_email ?b2) (whitelist ?st2)
      = Some \<lparr>wl_id = 4, wl_email = ''w@y.com'', addedBy = 1, isUsed = True, usedBy = Some 9\<rparr>"
    by simp
  have h: "case find (\<lambda>w. wl_email w = reg_email ?b) (whitelist storeAuth) of
           None \<Rightarrow> True | Some w \<Rightarrow> isUsed w"
    by (simp only: w option.case)
  have h2: "case find (\<lambda>w. wl_email w = reg_email ?b2) (whitelist ?st2) of
           None \<Rightarrow> True | Some w \<Rightarrow> isUsed w"
    by (simp only: w2 option.case) simp
  have v: "validRegistration hasAt ?b" "validRegistration hasAt ?b2"
    by (simp_all add: validRegistration_def hasAt_def)
  have u: "find (\<lambda>u. user_email u = reg_email ?b) (users storeAuth) = None"
    "find (\<lambda>u. user_email u = reg_email ?b2) (users ?st2) = None"
    by (simp_all add: storeAuth_def adminUser_def)
  from registerUser_not_whitelisted[OF e h, of hasAt hashed] v(1) u(1) w
  have r1: "registerUser hasAt hashed storeAuth ?b
      = (Inl (HttpError 403
           ''Email not authorized. Please contact admin to whitelist your email address.''),
         storeAuth)"
    by simp
  from registerUser_not_whitelisted[OF e2 h2, of hasAt hashed] v(2) u(2) w2
  have r2: "registerUser hasAt hashed ?st2 ?b2
      = (Inl (HttpError 400 ''This email has already been used for registration''), ?st2)"
    by simp
  from e w r1 w2 r2 show ?thesis
    by simp
qed

text \<open>
  C9 as stated fails for a request that does not pass the validation of its fields: with a
  password of three characters and an email that has no whitelist entry, the response is
  the validation failure (400), not an authorization failure.  It also fails for an email
  that is registered already and has no whitelist entry: the response is the "already
  exists" failure (400).
\<close>

theorem registerUser_validation_first_counterexample:
  "''n@y.com'' \<noteq> bootstrapEmail
   \<and> find (\<lambda>w. wl_email w = ''n@y.com'') (whitelist storeAuth) = None
   \<and> registerUser hasAt hashed storeAuth
        \<lparr>reg_name = ''n'', reg_email = ''n@y.com'', reg_password = ''abc''\<rparr>
      = (Inl (HttpError 400 ''Validation failed''), storeAuth)
   \<and> ''x@y.com'' \<noteq> bootstrapEmail
   \<and> find (\<lambda>w. wl_email w = ''x@y.com'') (whitelist (storeAuth\<lparr>whitelist := []\<rparr>)) = None
   \<and> registerUser hasAt hashed (storeAuth\<lparr>whitelist := []\<rparr>)
        \<lparr>reg_name = ''x'', reg_email = ''x@y.com'', reg_password = ''secret''\<rparr>
      = (Inl (HttpError 400 ''User already exists with this email''),
         storeAuth\<lparr>whitelist := []\<rparr>)"
  by (simp add: registerUser_def validRegistration_def bootstrapEmail_def storeAuth_def
      adminUser_def hasAt_def Let_def)

end
